theory Spec2Isabelle
  imports Main "HOL-Library.Char_ord" "HOL-Library.List_Lexorder" "HOL-Library.AList"
begin

section \<open>Exceptions of the run\<close>

text \<open>
  Every exception that \<open>sync.py\<close> or one of the library calls it makes can raise is a
  value; a function that can raise returns \<open>py_error + 'a\<close>, with \<open>Inl\<close> the exception.
\<close>

datatype py_error =
    UnknownTimeZoneError
  | OverflowError
  | ValueError
  | TypeError
  | AttributeError
  | AssertionError
  | HTTPError
  | ParseError
  | StoreError
  | OSError
  | KeyError

section \<open>Dates and times of the standard library\<close>

text \<open>
  A \<open>datetime.date\<close> is its proleptic Gregorian ordinal (\<open>date.toordinal()\<close>: day 1 is
  0001-01-01, day 3652059 is 9999-12-31). The wall clock of a \<open>datetime.datetime\<close> is the
  number of microseconds since 0001-01-01T00:00:00 that its fields year .. microsecond
  denote. The two conversions between ordinals and fields are those of CPython's
  \<open>datetime\<close> module (\<open>_ymd2ord\<close>, \<open>_ord2ymd\<close>); the fields are computed where the
  source formats a value. A \<open>timedelta\<close> is a number of microseconds.
\<close>

definition US_PER_SEC :: int where
  "US_PER_SEC = 1000000"

definition US_PER_HOUR :: int where
  "US_PER_HOUR = 3600000000"

definition US_PER_DAY :: int where
  "US_PER_DAY = 86400000000"

definition MAXORDINAL :: int where
  "MAXORDINAL = 3652059"

definition is_leap :: "int \<Rightarrow> bool" where
  "is_leap y = (y mod 4 = 0 \<and> (y mod 100 \<noteq> 0 \<or> y mod 400 = 0))"

definition days_before_year :: "int \<Rightarrow> int" where
  "days_before_year year = (let y = year - 1 in y * 365 + y div 4 - y div 100 + y div 400)"

definition DAYS_IN_MONTH :: "int list" where
  "DAYS_IN_MONTH = [31, 28, 31, 30, 31, 30, 31, 31, 30, 31, 30, 31]"

definition DAYS_BEFORE_MONTH :: "int list" where
  "DAYS_BEFORE_MONTH = [0, 31, 59, 90, 120, 151, 181, 212, 243, 273, 304, 334]"

definition days_in_month :: "int \<Rightarrow> int \<Rightarrow> int" where
  "days_in_month year month =
     (if month = 2 \<and> is_leap year then 29 else DAYS_IN_MONTH ! nat (month - 1))"

definition days_before_month :: "int \<Rightarrow> int \<Rightarrow> int" where
  "days_before_month year month =
     DAYS_BEFORE_MONTH ! nat (month - 1) + (if month > 2 \<and> is_leap year then 1 else 0)"

definition ymd2ord :: "int \<Rightarrow> int \<Rightarrow> int \<Rightarrow> int" where
  "ymd2ord year month day = days_before_year year + days_before_month year month + day"

text \<open>
  The month and day of the \<open>n\<close>-th day of a year, counted from 0: the last step of
  \<open>_ord2ymd\<close>, which estimates the month as \<open>(n + 50) >> 5\<close> and steps back one month
  when the estimate is too high.
\<close>

definition month_day :: "bool \<Rightarrow> int \<Rightarrow> int \<times> int" where
  "month_day leapyear n =
     (let month = (n + 50) div 32;
          preceding = DAYS_BEFORE_MONTH ! nat (month - 1)
                        + (if month > 2 \<and> leapyear then 1 else 0)
      in if preceding > n
         then let month' = month - 1;
                  preceding' = preceding
                     - (DAYS_IN_MONTH ! nat (month' - 1)
                          + (if month' = 2 \<and> leapyear then 1 else 0))
              in (month', n - preceding' + 1)
         else (month, n - preceding + 1))"

definition ord2ymd :: "int \<Rightarrow> int \<times> int \<times> int" where
  "ord2ymd ordinal =
     (let n0 = ordinal - 1;
          n400 = n0 div 146097; na = n0 mod 146097;
          n100 = na div 36524; nb = na mod 36524;
          n4 = nb div 1461; nc = nb mod 1461;
          n1 = nc div 365; n = nc mod 365;
          year = n400 * 400 + 1 + n100 * 100 + n4 * 4 + n1
      in if n1 = 4 \<or> n100 = 4 then (year - 1, 12, 31)
         else
           let leapyear = (n1 = 3 \<and> (n4 \<noteq> 24 \<or> n100 = 3))
           in case month_day leapyear n of (month, day) \<Rightarrow> (year, month, day))"

text \<open>The wall clock of \<open>datetime(y, m, d, hh, mm, ss)\<close> and of midnight on a date.\<close>

definition mk_wall :: "int \<Rightarrow> int \<Rightarrow> int \<Rightarrow> int \<Rightarrow> int \<Rightarrow> int \<Rightarrow> int" where
  "mk_wall y m d hh mm ss =
     (ymd2ord y m d - 1) * US_PER_DAY + ((hh * 60 + mm) * 60 + ss) * US_PER_SEC"

definition midnight :: "int \<Rightarrow> int" where
  "midnight ordinal = (ordinal - 1) * US_PER_DAY"

definition wall_ordinal :: "int \<Rightarrow> int" where
  "wall_ordinal w = w div US_PER_DAY + 1"

text \<open>
  Arithmetic on a \<open>datetime\<close> raises \<open>OverflowError\<close> when the result leaves
  0001-01-01T00:00:00 .. 9999-12-31T23:59:59.999999.
\<close>

definition in_range :: "int \<Rightarrow> bool" where
  "in_range w = (0 \<le> w \<and> w < MAXORDINAL * US_PER_DAY)"

definition chk :: "int \<Rightarrow> py_error + int" where
  "chk w = (if in_range w then Inr w else Inl OverflowError)"

section \<open>Time zones of pytz\<close>

text \<open>
  \<open>pytz.timezone(name)\<close> returns the one cached object of the zone. A zone keeps a list
  of transition infos (utcoffset, dst, tzname) and one \<open>tzinfo\<close> instance per distinct
  info; the object that \<open>timezone\<close> returns is the instance of the first info of the list
  (for a geographic zone its local mean time). \<open>first_inf\<close> is that first info,
  \<open>inf_at_utc\<close> the info in force at a UTC wall clock (what \<open>fromutc\<close> looks up) and
  \<open>inf_at_wall\<close> the info that \<open>localize\<close> picks for a local wall clock. A fixed-offset
  zone, and \<open>pytz.UTC\<close>, has the same info everywhere. Offsets are in seconds.
\<close>

record tzinf =
  utcoff :: int
  dstoff :: int
  abbr :: string

record zone =
  zname :: string
  first_inf :: tzinf
  inf_at_utc :: "int \<Rightarrow> tzinf"
  inf_at_wall :: "int \<Rightarrow> tzinf"

text \<open>\<open>pytz.UTC\<close>.\<close>

definition utc_inf :: tzinf where
  "utc_inf = \<lparr>utcoff = 0, dstoff = 0, abbr = ''UTC''\<rparr>"

definition UTC :: zone where
  "UTC = \<lparr>zname = ''UTC'', first_inf = utc_inf,
           inf_at_utc = (\<lambda>u. utc_inf), inf_at_wall = (\<lambda>w. utc_inf)\<rparr>"

text \<open>
  The \<open>tzinfo\<close> attached to an aware datetime: the instance of a pytz zone for one of its
  infos, or an object of another library, of which only the offset at this datetime is
  read.
\<close>

datatype tzinfo = Pytz string tzinf | OtherTz int

record adt =
  wall :: int
  tzi :: tzinfo

fun offset_us :: "tzinfo \<Rightarrow> int" where
  "offset_us (Pytz n i) = utcoff i * US_PER_SEC"
| "offset_us (OtherTz s) = s * US_PER_SEC"

definition utc_us :: "adt \<Rightarrow> int" where
  "utc_us d = wall d - offset_us (tzi d)"

text \<open>\<open>zone.localize(naive)\<close> with the default \<open>is_dst=False\<close>.\<close>

definition localize :: "zone \<Rightarrow> int \<Rightarrow> adt" where
  "localize z w = \<lparr>wall = w, tzi = Pytz (zname z) (inf_at_wall z w)\<rparr>"

text \<open>\<open>naive.replace(tzinfo=zone)\<close>: the zone object itself is attached, with its first info.\<close>

definition replace_tzinfo :: "int \<Rightarrow> zone \<Rightarrow> adt" where
  "replace_tzinfo w z = \<lparr>wall = w, tzi = Pytz (zname z) (first_inf z)\<rparr>"

text \<open>\<open>zone.fromutc(utc)\<close>: \<open>(utc + inf[0]).replace(tzinfo=self._tzinfos[inf])\<close>.\<close>

definition fromutc :: "zone \<Rightarrow> int \<Rightarrow> py_error + adt" where
  "fromutc z u =
     (let i = inf_at_utc z u
      in case chk (u + utcoff i * US_PER_SEC) of
           Inl e \<Rightarrow> Inl e
         | Inr w \<Rightarrow> Inr \<lparr>wall = w, tzi = Pytz (zname z) i\<rparr>)"

text \<open>
  \<open>aware.astimezone(zone)\<close>: a datetime whose \<open>tzinfo\<close> is the zone object itself is
  returned as it is (\<open>if tz is mytz: return self\<close>); any other is taken to UTC and handed
  to \<open>fromutc\<close>.
\<close>

definition astimezone :: "adt \<Rightarrow> zone \<Rightarrow> py_error + adt" where
  "astimezone d z =
     (if tzi d = Pytz (zname z) (first_inf z) then Inr d
      else case chk (wall d - offset_us (tzi d)) of
             Inl e \<Rightarrow> Inl e
           | Inr u \<Rightarrow> fromutc z u)"

text \<open>\<open>aware + timedelta\<close>: the wall clock moves, the \<open>tzinfo\<close> stays.\<close>

definition add_timedelta :: "adt \<Rightarrow> int \<Rightarrow> py_error + adt" where
  "add_timedelta d td =
     (case chk (wall d + td) of Inl e \<Rightarrow> Inl e | Inr w \<Rightarrow> Inr (d\<lparr>wall := w\<rparr>))"

text \<open>\<open>a >= b\<close> on aware datetimes compares the instants.\<close>

definition dt_ge :: "adt \<Rightarrow> adt \<Rightarrow> bool" where
  "dt_ge a b = (utc_us a \<ge> utc_us b)"

section \<open>Configuration\<close>

text \<open>
  The module-level settings, with the two library functions that the model takes as
  given. \<open>tzdb\<close> is what \<open>pytz.timezone\<close> knows: a name it does not know raises
  \<open>UnknownTimeZoneError\<close>. \<open>TZ\<close> is \<open>timezone(TIMEZONE)\<close>, evaluated when the module is
  loaded. \<open>md5_hexdigest\<close> is \<open>hashlib.md5(text).hexdigest()\<close>. \<open>local_utcoff\<close> is the
  offset in seconds of the system's local time at a naive wall clock, which
  \<open>astimezone\<close> uses for a naive datetime.
\<close>

record config =
  tzdb :: "string \<Rightarrow> zone option"
  TIMEZONE :: string
  TZ :: zone
  PAST_DAYS :: int
  ICS_URL :: "string option"
  TARGET_CALENDAR_ID :: "string option"
  md5_hexdigest :: "string \<Rightarrow> string"
  local_utcoff :: "int \<Rightarrow> int"

definition WINDOWS_TZMAP :: "(string \<times> string) list" where
  "WINDOWS_TZMAP =
     [(''Romance Standard Time'', ''Europe/Paris''),
      (''W. Europe Standard Time'', ''Europe/Berlin''),
      (''Central European Standard Time'', ''Europe/Warsaw''),
      (''FLE Standard Time'', ''Europe/Helsinki'')]"

definition timezone :: "config \<Rightarrow> string \<Rightarrow> py_error + zone" where
  "timezone cfg name =
     (case tzdb cfg name of None \<Rightarrow> Inl UnknownTimeZoneError | Some z \<Rightarrow> Inr z)"

text \<open>A string option is false in a condition when it is \<open>None\<close> or empty.\<close>

fun truthy :: "string option \<Rightarrow> bool" where
  "truthy None = False"
| "truthy (Some s) = (s \<noteq> [])"

definition map_tzid :: "config \<Rightarrow> string option \<Rightarrow> string" where
  "map_tzid cfg src_tzid =
     (case src_tzid of
        None \<Rightarrow> TIMEZONE cfg
      | Some s \<Rightarrow>
          if s = [] then TIMEZONE cfg
          else (case map_of WINDOWS_TZMAP s of None \<Rightarrow> s | Some t \<Rightarrow> t))"

section \<open>normalize\_dt\<close>

text \<open>
  A value of a feed property: a \<open>date\<close>, a naive \<open>datetime\<close> or an aware one. The
  \<open>target_tz\<close> argument is absent, a zone name or a zone object.
\<close>

datatype pyval = PDate int | PNaive int | PAware adt

datatype tzarg = TzNone | TzName string | TzObj zone

definition normalize_dt ::
  "config \<Rightarrow> pyval \<Rightarrow> string option \<Rightarrow> tzarg \<Rightarrow> py_error + (bool \<times> adt)" where
  "normalize_dt cfg val src_tzid target_tz =
     (case (case target_tz of
              TzName s \<Rightarrow> timezone cfg (map_tzid cfg (Some s))
            | TzObj z \<Rightarrow> Inr z
            | TzNone \<Rightarrow> Inr (TZ cfg)) of
        Inl e \<Rightarrow> Inl e
      | Inr target \<Rightarrow>
          (case val of
             PDate d \<Rightarrow> Inr (True, replace_tzinfo (midnight d) target)
           | PNaive w \<Rightarrow>
               (case (if truthy src_tzid then timezone cfg (map_tzid cfg src_tzid)
                      else Inr target) of
                  Inl e \<Rightarrow> Inl e
                | Inr src \<Rightarrow>
                    (case astimezone (localize src w) target of
                       Inl e \<Rightarrow> Inl e
                     | Inr r \<Rightarrow> Inr (False, r)))
           | PAware a \<Rightarrow>
               (case astimezone a target of
                  Inl e \<Rightarrow> Inl e
                | Inr r \<Rightarrow> Inr (False, r))))"

section \<open>Text forms of dates and times\<close>

text \<open>
  \<open>str(n)\<close> of an integer (\<open>str_nat\<close> for one that is not negative), and the zero-padded \<open>%0kd\<close> that \<open>isoformat\<close> and
  \<open>strftime\<close> use for their fields.
\<close>

definition digit :: "int \<Rightarrow> char" where
  "digit n = ''0123456789'' ! nat (n mod 10)"

function str_nat :: "int \<Rightarrow> string" where
  "str_nat n = (if n < 10 then [digit n] else str_nat (n div 10) @ [digit (n mod 10)])"
  by pat_completeness auto
termination
  by (relation "measure nat") auto

definition str_int :: "int \<Rightarrow> string" where
  "str_int i = (if i < 0 then CHR ''-'' # str_nat (- i) else str_nat i)"

definition zpad :: "nat \<Rightarrow> int \<Rightarrow> string" where
  "zpad k i =
     (if i < 0
      then CHR ''-'' # replicate (k - 1 - length (str_nat (- i))) CHR ''0'' @ str_nat (- i)
      else replicate (k - length (str_nat i)) CHR ''0'' @ str_nat i)"

text \<open>The time-of-day fields of a wall clock.\<close>

definition wall_hour :: "int \<Rightarrow> int" where
  "wall_hour w = (w mod US_PER_DAY) div US_PER_HOUR"

definition wall_minute :: "int \<Rightarrow> int" where
  "wall_minute w = ((w mod US_PER_DAY) div (60 * US_PER_SEC)) mod 60"

definition wall_second :: "int \<Rightarrow> int" where
  "wall_second w = ((w mod US_PER_DAY) div US_PER_SEC) mod 60"

definition wall_microsecond :: "int \<Rightarrow> int" where
  "wall_microsecond w = w mod US_PER_SEC"

text \<open>\<open>date.isoformat()\<close>: \<open>%04d-%02d-%02d\<close>.\<close>

definition date_isoformat :: "int \<Rightarrow> string" where
  "date_isoformat ordinal =
     (case ord2ymd ordinal of
        (y, m, d) \<Rightarrow> zpad 4 y @ ''-'' @ zpad 2 m @ ''-'' @ zpad 2 d)"

text \<open>
  The offset suffix of \<open>datetime.isoformat()\<close>: sign, \<open>%02d:%02d\<close> and the seconds
  only when they are not zero.
\<close>

definition format_offset :: "int \<Rightarrow> string" where
  "format_offset off =
     (let a = \<bar>off\<bar>; hh = a div 3600; mm = (a mod 3600) div 60; ss = a mod 60
      in (if off < 0 then ''-'' else ''+'') @ zpad 2 hh @ '':'' @ zpad 2 mm
           @ (if ss \<noteq> 0 then '':'' @ zpad 2 ss else []))"

text \<open>
  \<open>datetime.isoformat(sep)\<close>: the date, the separator, the time with microseconds only
  when they are not zero and, for an aware datetime, the offset.
\<close>

definition naive_isoformat_sep :: "char \<Rightarrow> int \<Rightarrow> string" where
  "naive_isoformat_sep sep w =
     date_isoformat (wall_ordinal w) @ [sep]
       @ zpad 2 (wall_hour w) @ '':'' @ zpad 2 (wall_minute w) @ '':''
       @ zpad 2 (wall_second w)
       @ (if wall_microsecond w \<noteq> 0 then ''.'' @ zpad 6 (wall_microsecond w) else [])"

definition isoformat_sep :: "char \<Rightarrow> adt \<Rightarrow> string" where
  "isoformat_sep sep d =
     naive_isoformat_sep sep (wall d) @ format_offset (offset_us (tzi d) div US_PER_SEC)"

definition isoformat :: "adt \<Rightarrow> string" where
  "isoformat d = isoformat_sep CHR ''T'' d"

text \<open>
  The three \<open>strftime\<close> formats of the source: \<open>%Y%m%d\<close>, \<open>%Y%m%dT%H%M%S\<close> and
  \<open>%Y%m%dT%H%M%SZ\<close>. \<open>%Y\<close> is the year as the C library of the platform prints it;
  that of Linux prints the decimal number without padding, so a year before 1000 has
  fewer than four digits.
\<close>

definition strftime_Ymd :: "int \<Rightarrow> string" where
  "strftime_Ymd ordinal =
     (case ord2ymd ordinal of (y, m, d) \<Rightarrow> str_int y @ zpad 2 m @ zpad 2 d)"

definition strftime_YmdTHMS :: "int \<Rightarrow> string" where
  "strftime_YmdTHMS w =
     strftime_Ymd (wall_ordinal w) @ ''T'' @ zpad 2 (wall_hour w) @ zpad 2 (wall_minute w)
       @ zpad 2 (wall_second w)"

definition strftime_YmdTHMSZ :: "int \<Rightarrow> string" where
  "strftime_YmdTHMSZ w = strftime_YmdTHMS w @ ''Z''"

section \<open>json.dumps\<close>

text \<open>
  \<open>json.dumps\<close> with its defaults (\<open>ensure_ascii=True\<close>, separators \<open>", "\<close> and
  \<open>": "\<close>), for the values the source serializes: strings, lists of strings and the two
  shapes of a start or end. A character outside the printable ASCII range, the double
  quote and the backslash are escaped. Characters are the 256 values of \<open>char\<close>.
\<close>

definition dq :: char where
  "dq = CHR 0x22"

definition bs :: char where
  "bs = CHR 0x5C"

definition hexdigit :: "int \<Rightarrow> char" where
  "hexdigit n = ''0123456789abcdef'' ! nat (n mod 16)"

definition json_escape :: "char \<Rightarrow> string" where
  "json_escape c =
     (if c = dq then [bs, dq]
      else if c = bs then [bs, bs]
      else if c = CHR 0x0A then [bs, CHR ''n'']
      else if c = CHR 0x0D then [bs, CHR ''r'']
      else if c = CHR 0x09 then [bs, CHR ''t'']
      else if c = CHR 0x08 then [bs, CHR ''b'']
      else if c = CHR 0x0C then [bs, CHR ''f'']
      else if (of_char c :: int) < 32 \<or> 126 < (of_char c :: int)
      then [bs, CHR ''u'', CHR ''0'', CHR ''0'',
            hexdigit ((of_char c :: int) div 16), hexdigit ((of_char c :: int) mod 16)]
      else [c])"

definition json_string :: "string \<Rightarrow> string" where
  "json_string s = dq # concat (map json_escape s) @ [dq]"

fun join :: "string \<Rightarrow> string list \<Rightarrow> string" where
  "join sep [] = []"
| "join sep [x] = x"
| "join sep (x # y # ys) = x @ sep @ join sep (y # ys)"

definition json_list :: "string list \<Rightarrow> string" where
  "json_list xs = ''['' @ join '', '' (map json_string xs) @ '']''"

definition json_member :: "string \<Rightarrow> string \<Rightarrow> string" where
  "json_member k v = json_string k @ '': '' @ v"

section \<open>The canonical resource\<close>

text \<open>
  A start or end of a resource is \<open>{"date": D}\<close> or \<open>{"dateTime": T, "timeZone": Z}\<close>.
  The key \<open>recurrence\<close> is absent or a list of lines. The last three fields are the
  private extended properties \<open>src\<close>, \<open>outlook_uid\<close> and \<open>fp\<close>. The field \<open>end\<close> of
  the source is \<open>end_time\<close> here.
\<close>

datatype gtime = GDate string | GDateTime string string

record resource =
  summary :: string
  description :: string
  location :: string
  start :: gtime
  end_time :: gtime
  recurrence :: "string list option"
  private_src :: string
  private_outlook_uid :: string
  private_fp :: string

fun json_dumps_time :: "gtime \<Rightarrow> string" where
  "json_dumps_time (GDate d) = ''{'' @ json_member ''date'' (json_string d) @ ''}''"
| "json_dumps_time (GDateTime t z) =
     ''{'' @ json_member ''dateTime'' (json_string t) @ '', ''
       @ json_member ''timeZone'' (json_string z) @ ''}''"

fun is_date :: "gtime \<Rightarrow> bool" where
  "is_date (GDate d) = True"
| "is_date (GDateTime t z) = False"

section \<open>event\_fingerprint\<close>

text \<open>
  \<open>x or ""\<close> of an argument that may be \<open>None\<close>; the keys of the payload are sorted
  (\<open>sort_keys=True\<close>): d, et, ex, l, rd, rr, s, st.
\<close>

fun or_empty :: "string option \<Rightarrow> string" where
  "or_empty None = []"
| "or_empty (Some s) = s"

definition fingerprint_payload ::
  "string option \<Rightarrow> string option \<Rightarrow> string option \<Rightarrow> string \<Rightarrow> string
     \<Rightarrow> string option \<Rightarrow> string list \<Rightarrow> string list \<Rightarrow> string" where
  "fingerprint_payload summ descr loc start_str end_str rrule exdates rdates =
     ''{'' @ json_member ''d'' (json_string (or_empty descr)) @ '', ''
       @ json_member ''et'' (json_string end_str) @ '', ''
       @ json_member ''ex'' (json_list exdates) @ '', ''
       @ json_member ''l'' (json_string (or_empty loc)) @ '', ''
       @ json_member ''rd'' (json_list rdates) @ '', ''
       @ json_member ''rr'' (json_string (or_empty rrule)) @ '', ''
       @ json_member ''s'' (json_string (or_empty summ)) @ '', ''
       @ json_member ''st'' (json_string start_str) @ ''}''"

definition event_fingerprint ::
  "config \<Rightarrow> string option \<Rightarrow> string option \<Rightarrow> string option \<Rightarrow> string \<Rightarrow> string
     \<Rightarrow> string option \<Rightarrow> string list \<Rightarrow> string list \<Rightarrow> string" where
  "event_fingerprint cfg summ descr loc start_str end_str rrule exdates rdates =
     md5_hexdigest cfg
       (fingerprint_payload summ descr loc start_str end_str rrule exdates rdates)"

section \<open>Recurrence rules and recurrence lines\<close>

text \<open>
  A value of a recurrence rule as the parser delivers it: a date or datetime (UNTIL), an
  integer (COUNT, INTERVAL, ...) or text (FREQ, BYDAY, ...). The rule is a dictionary from
  keys to lists of values, kept as an association list in the dictionary's order.
\<close>

datatype rval = RDt pyval | RInt int | RStr string

text \<open>
  \<open>str.upper()\<close> on ASCII text: the letters a to z are mapped, every other character is
  left as it is.
\<close>

definition upper_char :: "char \<Rightarrow> char" where
  "upper_char c =
     (if CHR ''a'' \<le> c \<and> c \<le> CHR ''z'' then char_of ((of_char c :: int) - 32) else c)"

definition upper :: "string \<Rightarrow> string" where
  "upper s = map upper_char s"

text \<open>\<open>str(v)\<close> of a rule value.\<close>

fun py_str :: "rval \<Rightarrow> string" where
  "py_str (RInt i) = str_int i"
| "py_str (RStr s) = s"
| "py_str (RDt (PDate d)) = date_isoformat d"
| "py_str (RDt (PNaive w)) = naive_isoformat_sep CHR '' '' w"
| "py_str (RDt (PAware a)) = isoformat_sep CHR '' '' a"

text \<open>
  \<open>int(v)\<close> of a rule value. Of a text, \<open>int\<close> strips the surrounding whitespace and
  accepts an optional sign followed by decimal digits, with single underscores allowed
  between digits.
\<close>

definition is_digit_char :: "char \<Rightarrow> bool" where
  "is_digit_char c = (CHR ''0'' \<le> c \<and> c \<le> CHR ''9'')"

definition digit_val :: "char \<Rightarrow> int" where
  "digit_val c = of_char c - 48"

definition digits_val :: "string \<Rightarrow> int" where
  "digits_val s = foldl (\<lambda>a c. a * 10 + digit_val c) 0 s"

definition is_space_char :: "char \<Rightarrow> bool" where
  "is_space_char c =
     (c \<in> set [CHR 0x20, CHR 0x09, CHR 0x0A, CHR 0x0B, CHR 0x0C, CHR 0x0D, CHR 0x1C,
                CHR 0x1D, CHR 0x1E, CHR 0x1F, CHR 0x85, CHR 0xA0])"

definition strip :: "string \<Rightarrow> string" where
  "strip s = rev (dropWhile is_space_char (rev (dropWhile is_space_char s)))"

fun digit_groups :: "string \<Rightarrow> bool" where
  "digit_groups [] = False"
| "digit_groups [c] = is_digit_char c"
| "digit_groups (c # d # r) =
     (is_digit_char c \<and> (if d = CHR ''_'' then digit_groups r else digit_groups (d # r)))"

definition int_of_text :: "string \<Rightarrow> py_error + int" where
  "int_of_text s =
     (let t = strip s;
          signed = (t \<noteq> [] \<and> (hd t = CHR ''-'' \<or> hd t = CHR ''+''));
          body = (if signed then tl t else t)
      in if digit_groups body
         then Inr ((if signed \<and> hd t = CHR ''-'' then - 1 else 1)
                     * digits_val (filter (\<lambda>c. c \<noteq> CHR ''_'') body))
         else Inl ValueError)"

fun py_int :: "rval \<Rightarrow> py_error + int" where
  "py_int (RInt i) = Inr i"
| "py_int (RStr s) = int_of_text s"
| "py_int (RDt v) = Inl TypeError"

text \<open>
  \<open>_fmt_until_value\<close>: a datetime goes to UTC (a naive one is first read in the system's
  local time), a date is midnight UTC, anything else is its \<open>str\<close>.
\<close>

fun fmt_until_value :: "config \<Rightarrow> rval \<Rightarrow> py_error + string" where
  "fmt_until_value cfg (RDt (PAware a)) =
     (case astimezone a UTC of
        Inl e \<Rightarrow> Inl e
      | Inr v \<Rightarrow> Inr (strftime_YmdTHMSZ (wall v)))"
| "fmt_until_value cfg (RDt (PNaive w)) =
     (case astimezone \<lparr>wall = w, tzi = OtherTz (local_utcoff cfg w)\<rparr> UTC of
        Inl e \<Rightarrow> Inl e
      | Inr v \<Rightarrow> Inr (strftime_YmdTHMSZ (wall v)))"
| "fmt_until_value cfg (RDt (PDate d)) = Inr (strftime_YmdTHMSZ (midnight d))"
| "fmt_until_value cfg v = Inr (py_str v)"

text \<open>The inner loop of \<open>build_rrule_string\<close> over the values of one key.\<close>

fun rrule_values :: "config \<Rightarrow> string \<Rightarrow> rval list \<Rightarrow> py_error + string list" where
  "rrule_values cfg key [] = Inr []"
| "rrule_values cfg key (v # vs) =
     (case (if key = ''UNTIL'' then fmt_until_value cfg v
            else if key = ''COUNT''
            then (case py_int v of Inl e \<Rightarrow> Inl e | Inr i \<Rightarrow> Inr (str_int i))
            else Inr (upper (py_str v))) of
        Inl e \<Rightarrow> Inl e
      | Inr s \<Rightarrow>
          (case rrule_values cfg key vs of
             Inl e \<Rightarrow> Inl e
           | Inr out_vals \<Rightarrow> Inr (s # out_vals)))"

text \<open>
  The outer loop over the sorted keys; \<open>rrule_get rrule_dict k\<close> is \<open>rrule_dict[k]\<close>, the
  values of the key.
\<close>

definition rrule_get :: "(string \<times> rval list) list \<Rightarrow> string \<Rightarrow> rval list" where
  "rrule_get rrule_dict k = (case map_of rrule_dict k of None \<Rightarrow> [] | Some vals \<Rightarrow> vals)"

fun rrule_parts ::
  "config \<Rightarrow> (string \<times> rval list) list \<Rightarrow> string list \<Rightarrow> py_error + string list" where
  "rrule_parts cfg rrule_dict [] = Inr []"
| "rrule_parts cfg rrule_dict (k # ks) =
     (case rrule_values cfg (upper k) (rrule_get rrule_dict k) of
        Inl e \<Rightarrow> Inl e
      | Inr out_vals \<Rightarrow>
          (case rrule_parts cfg rrule_dict ks of
             Inl e \<Rightarrow> Inl e
           | Inr parts \<Rightarrow> Inr ((upper k @ ''='' @ join '','' out_vals) # parts)))"

definition build_rrule_string ::
  "config \<Rightarrow> (string \<times> rval list) list \<Rightarrow> py_error + string" where
  "build_rrule_string cfg rrule_dict =
     (case rrule_parts cfg rrule_dict (sort_key upper (map fst rrule_dict)) of
        Inl e \<Rightarrow> Inl e
      | Inr parts \<Rightarrow> Inr (join '';'' parts))"

text \<open>
  An element of \<open>exdates_dt\<close> or \<open>rdates_dt\<close>: the normalized datetime, or its date when
  the event is all-day.
\<close>

datatype recur_item = ItemDate int | ItemDateTime adt

fun item_Ymd :: "recur_item \<Rightarrow> string" where
  "item_Ymd (ItemDate d) = strftime_Ymd d"
| "item_Ymd (ItemDateTime a) = strftime_Ymd (wall_ordinal (wall a))"

fun item_YmdTHMS :: "recur_item \<Rightarrow> string" where
  "item_YmdTHMS (ItemDate d) = strftime_YmdTHMS (midnight d)"
| "item_YmdTHMS (ItemDateTime a) = strftime_YmdTHMS (wall a)"

fun item_isoformat :: "recur_item \<Rightarrow> string" where
  "item_isoformat (ItemDate d) = date_isoformat d"
| "item_isoformat (ItemDateTime a) = isoformat a"

definition format_recur_line :: "string \<Rightarrow> bool \<Rightarrow> recur_item list \<Rightarrow> string \<Rightarrow> string" where
  "format_recur_line kind is_all_day dt_list_dt tzid =
     (if is_all_day
      then kind @ '';VALUE=DATE:'' @ join '','' (map item_Ymd dt_list_dt)
      else kind @ '';TZID='' @ tzid @ '':'' @ join '','' (map item_YmdTHMS dt_list_dt))"

section \<open>The raw feed event\<close>

text \<open>
  A property with a date or datetime value and its TZID parameter; an EXDATE or RDATE
  property with its list of values; and the event with the properties the source reads.
  An absent EXDATE or RDATE is the empty list. DURATION is a timedelta.
\<close>

record dt_prop =
  dt :: pyval
  TZID :: "string option"

record dates_prop =
  dts :: "pyval list"
  dates_TZID :: "string option"

record vevent =
  UID :: "string option"
  RECURRENCE_ID :: "dt_prop option"
  SUMMARY :: "string option"
  DESCRIPTION :: "string option"
  LOCATION :: "string option"
  DTSTART :: "dt_prop option"
  DTEND :: "dt_prop option"
  DURATION :: "int option"
  RRULE :: "(string \<times> rval list) list option"
  EXDATE :: "dates_prop list"
  RDATE :: "dates_prop list"

section \<open>to\_gcal\_resource\<close>

text \<open>
  The identity: \<open>str(vevent.get("UID"))\<close>, with the normalized RECURRENCE-ID appended
  for an override.
\<close>

definition base_uid :: "vevent \<Rightarrow> string" where
  "base_uid vevent = (case UID vevent of None \<Rightarrow> ''None'' | Some u \<Rightarrow> u)"

definition resource_uid :: "config \<Rightarrow> vevent \<Rightarrow> py_error + string" where
  "resource_uid cfg vevent =
     (case RECURRENCE_ID vevent of
        None \<Rightarrow> Inr (base_uid vevent)
      | Some recur_id_prop \<Rightarrow>
          (case normalize_dt cfg (dt recur_id_prop) (TZID recur_id_prop) TzNone of
             Inl e \<Rightarrow> Inl e
           | Inr (u, rid_dt) \<Rightarrow> Inr (base_uid vevent @ ''::'' @ isoformat rid_dt)))"

text \<open>
  DTSTART and DTEND: the zone of the event, the all-day flag and normalized datetime of
  the start, and those of the end.
\<close>

record event_times =
  event_tzid :: string
  event_tz :: zone
  allday_start :: bool
  start_dt_local :: adt
  allday_end :: bool
  end_dt_local :: adt

definition resource_times :: "config \<Rightarrow> vevent \<Rightarrow> py_error + event_times" where
  "resource_times cfg vevent =
     (let dtstart_tzid_raw = (case DTSTART vevent of None \<Rightarrow> None | Some p \<Rightarrow> TZID p);
          tzid = map_tzid cfg dtstart_tzid_raw
      in case timezone cfg tzid of
           Inl e \<Rightarrow> Inl e
         | Inr tz \<Rightarrow>
             (case DTSTART vevent of
                None \<Rightarrow> Inl AttributeError
              | Some dtstart_prop \<Rightarrow>
                  (case normalize_dt cfg (dt dtstart_prop) dtstart_tzid_raw (TzObj tz) of
                     Inl e \<Rightarrow> Inl e
                   | Inr (ad_start, start_dt) \<Rightarrow>
                       (case (case DTEND vevent of
                                Some dtend_prop \<Rightarrow>
                                  normalize_dt cfg (dt dtend_prop) (TZID dtend_prop) (TzObj tz)
                              | None \<Rightarrow>
                                  (case (case DURATION vevent of
                                           Some duration \<Rightarrow> add_timedelta start_dt duration
                                         | None \<Rightarrow>
                                             add_timedelta start_dt
                                               (if ad_start then US_PER_DAY else US_PER_HOUR)) of
                                     Inl e \<Rightarrow> Inl e
                                   | Inr s \<Rightarrow>
                                       (case astimezone s tz of
                                          Inl e \<Rightarrow> Inl e
                                        | Inr end_dt \<Rightarrow> Inr (ad_start, end_dt)))) of
                          Inl e \<Rightarrow> Inl e
                        | Inr (ad_end, end_dt) \<Rightarrow>
                            Inr \<lparr>event_tzid = tzid, event_tz = tz, allday_start = ad_start,
                                 start_dt_local = start_dt, allday_end = ad_end,
                                 end_dt_local = end_dt\<rparr>))))"

text \<open>
  The start or end of the resource from an all-day flag and a datetime.
\<close>

definition time_field :: "bool \<Rightarrow> adt \<Rightarrow> string \<Rightarrow> gtime" where
  "time_field allday d tzid =
     (if allday then GDate (date_isoformat (wall_ordinal (wall d)))
      else GDateTime (isoformat d) tzid)"

text \<open>
  The loops over EXDATE and over RDATE: every value of every property is normalized
  against the zone of the event and kept as a date when the start is all-day.
\<close>

fun collect_comps ::
  "config \<Rightarrow> zone \<Rightarrow> bool \<Rightarrow> string option \<Rightarrow> pyval list \<Rightarrow> py_error + recur_item list" where
  "collect_comps cfg tz ad_start tzid [] = Inr []"
| "collect_comps cfg tz ad_start tzid (cv # cvs) =
     (case normalize_dt cfg cv tzid (TzObj tz) of
        Inl e \<Rightarrow> Inl e
      | Inr (u, d) \<Rightarrow>
          (case collect_comps cfg tz ad_start tzid cvs of
             Inl e \<Rightarrow> Inl e
           | Inr rest \<Rightarrow>
               Inr ((if \<not> ad_start then ItemDateTime d else ItemDate (wall_ordinal (wall d)))
                      # rest)))"

fun collect_dates ::
  "config \<Rightarrow> zone \<Rightarrow> bool \<Rightarrow> dates_prop list \<Rightarrow> py_error + recur_item list" where
  "collect_dates cfg tz ad_start [] = Inr []"
| "collect_dates cfg tz ad_start (ex # ex_list) =
     (case collect_comps cfg tz ad_start (dates_TZID ex) (dts ex) of
        Inl e \<Rightarrow> Inl e
      | Inr xs \<Rightarrow>
          (case collect_dates cfg tz ad_start ex_list of
             Inl e \<Rightarrow> Inl e
           | Inr rest \<Rightarrow> Inr (xs @ rest)))"

text \<open>
  The recurrence lines, collected for a master only (no RECURRENCE-ID); the key is set
  only when there is a line.
\<close>

definition recurrence_lines ::
  "bool \<Rightarrow> string option \<Rightarrow> recur_item list \<Rightarrow> recur_item list \<Rightarrow> gtime \<Rightarrow> string
     \<Rightarrow> string list option" where
  "recurrence_lines has_recur_id g_rrule exdates_dt rdates_dt start_f tzid =
     (if has_recur_id then None
      else let lines =
                 (case g_rrule of
                    None \<Rightarrow> []
                  | Some r \<Rightarrow> if r \<noteq> [] then [''RRULE:'' @ r] else [])
                 @ (if exdates_dt \<noteq> []
                    then [format_recur_line ''EXDATE'' (is_date start_f) exdates_dt tzid]
                    else [])
                 @ (if rdates_dt \<noteq> []
                    then [format_recur_line ''RDATE'' (is_date start_f) rdates_dt tzid]
                    else [])
           in if lines \<noteq> [] then Some lines else None)"

definition to_gcal_resource :: "config \<Rightarrow> vevent \<Rightarrow> py_error + (string \<times> resource)" where
  "to_gcal_resource cfg vevent =
     (case resource_uid cfg vevent of
        Inl e \<Rightarrow> Inl e
      | Inr uid \<Rightarrow>
     (case resource_times cfg vevent of
        Inl e \<Rightarrow> Inl e
      | Inr t \<Rightarrow>
     (case (case RRULE vevent of
              None \<Rightarrow> Inr None
            | Some rrule \<Rightarrow>
                if rrule = [] then Inr None
                else (case build_rrule_string cfg rrule of
                        Inl e \<Rightarrow> Inl e
                      | Inr r \<Rightarrow> Inr (Some r))) of
        Inl e \<Rightarrow> Inl e
      | Inr g_rrule \<Rightarrow>
     (case collect_dates cfg (event_tz t) (allday_start t) (EXDATE vevent) of
        Inl e \<Rightarrow> Inl e
      | Inr exdates_dt \<Rightarrow>
     (case collect_dates cfg (event_tz t) (allday_start t) (RDATE vevent) of
        Inl e \<Rightarrow> Inl e
      | Inr rdates_dt \<Rightarrow>
          let summ = or_empty (SUMMARY vevent);
              descr = or_empty (DESCRIPTION vevent);
              loc = or_empty (LOCATION vevent);
              start_f = time_field (allday_start t) (start_dt_local t) (event_tzid t);
              end_f = time_field (allday_end t) (end_dt_local t) (event_tzid t);
              fingerprint =
                event_fingerprint cfg (Some summ) (Some descr) (Some loc)
                  (json_dumps_time start_f) (json_dumps_time end_f) g_rrule
                  (map item_isoformat exdates_dt) (map item_isoformat rdates_dt)
          in Inr (uid,
                  \<lparr>summary = summ, description = descr, location = loc,
                   start = start_f, end_time = end_f,
                   recurrence =
                     recurrence_lines (RECURRENCE_ID vevent \<noteq> None) g_rrule exdates_dt
                       rdates_dt start_f (event_tzid t),
                   private_src = ''outlook_ics'', private_outlook_uid = uid,
                   private_fp = fingerprint\<rparr>))))))"

section \<open>The run\<close>

text \<open>
  The persisted sync state, the response of the feed server, and an event of the target
  calendar as the run reads it: its id and the private extended properties
  \<open>outlook_uid\<close> and \<open>fp\<close>.
\<close>

record sync_state =
  etag :: "string option"
  last_modified :: "string option"
  hash :: "string option"

record http_response =
  status_code :: int
  header_ETag :: "string option"
  header_Last_Modified :: "string option"
  content :: string

record gevent =
  gid :: string
  ev_outlook_uid :: "string option"
  ev_fp :: "string option"

text \<open>
  The calls of a run that reach the outside and change or read it: writing the state
  file and the four calls on the target calendar. A run is the list of the calls it made,
  in order, and the exception that ended it, if any. The \<open>print\<close> lines of the source
  are left out.
\<close>

datatype call =
    SaveState sync_state
  | ListEvents nat
  | Insert resource
  | Patch string resource
  | Delete string

text \<open>
  What a run finds outside: the exception that \<open>gcal_service()\<close> raises, if any
  (\<open>KeyError\<close> when the credentials variable is unset, \<open>OSError\<close> when the file cannot
  be read), the state file, the answer of
  the feed server to the request headers, the parser's result on the content (the VEVENT
  components in order), the current UTC time, the pages that the calendar's list call
  returns, and which call raises when it is made after the calls so far.
\<close>

record world =
  gcal_service :: "py_error option"
  load_state :: sync_state
  http_get :: "(string \<times> string) list \<Rightarrow> py_error + http_response"
  from_ical :: "string \<Rightarrow> py_error + vevent list"
  now_utc :: int
  pages :: "gevent list list"
  fails :: "call list \<Rightarrow> call \<Rightarrow> bool"

definition request_headers :: "sync_state \<Rightarrow> (string \<times> string) list" where
  "request_headers state =
     (if truthy (etag state) then [(''If-None-Match'', the (etag state))] else [])
     @ (if truthy (last_modified state)
        then [(''If-Modified-Since'', the (last_modified state))] else [])"

text \<open>The test of the snapshot loop on an event that has a DTSTART.\<close>

definition event_keep :: "config \<Rightarrow> adt \<Rightarrow> vevent \<Rightarrow> dt_prop \<Rightarrow> py_error + bool" where
  "event_keep cfg cutoff ev dtstart =
     (case normalize_dt cfg (dt dtstart) (TZID dtstart) TzNone of
        Inl e \<Rightarrow> Inl e
      | Inr (u, start_dt) \<Rightarrow>
          let has_rrule = (RRULE ev \<noteq> None);
              has_recur_id = (RECURRENCE_ID ev \<noteq> None)
          in Inr (if has_rrule \<and> \<not> has_recur_id then True else dt_ge start_dt cutoff))"

text \<open>
  The snapshot loop: \<open>src\<close> is a dictionary, kept as an association list in insertion
  order; assigning to a key that is present replaces its value in place.
\<close>

fun build_src ::
  "config \<Rightarrow> adt \<Rightarrow> vevent list \<Rightarrow> (string \<times> resource) list
     \<Rightarrow> py_error + (string \<times> resource) list" where
  "build_src cfg cutoff [] src = Inr src"
| "build_src cfg cutoff (ev # evs) src =
     (case DTSTART ev of
        None \<Rightarrow> build_src cfg cutoff evs src
      | Some dtstart \<Rightarrow>
          (case event_keep cfg cutoff ev dtstart of
             Inl e \<Rightarrow> Inl e
           | Inr keep \<Rightarrow>
               if \<not> keep then build_src cfg cutoff evs src
               else (case to_gcal_resource cfg ev of
                       Inl e \<Rightarrow> Inl e
                     | Inr (uid, res) \<Rightarrow>
                         build_src cfg cutoff evs (AList.update uid res src))))"

text \<open>
  \<open>gcal_list_existing\<close>: one list call per page; an event with a non-empty
  \<open>outlook_uid\<close> is stored under it.
\<close>

definition add_items :: "(string \<times> gevent) list \<Rightarrow> gevent list \<Rightarrow> (string \<times> gevent) list" where
  "add_items items page =
     foldl (\<lambda>m ev. if truthy (ev_outlook_uid ev)
                    then AList.update (the (ev_outlook_uid ev)) ev m else m) items page"

fun list_pages ::
  "world \<Rightarrow> gevent list list \<Rightarrow> nat \<Rightarrow> (string \<times> gevent) list \<Rightarrow> call list
     \<Rightarrow> call list \<times> (py_error + (string \<times> gevent) list)" where
  "list_pages w [] n items tr =
     (if fails w tr (ListEvents n) then (tr @ [ListEvents n], Inl StoreError)
      else (tr @ [ListEvents n], Inr items))"
| "list_pages w [p] n items tr =
     (if fails w tr (ListEvents n) then (tr @ [ListEvents n], Inl StoreError)
      else (tr @ [ListEvents n], Inr (add_items items p)))"
| "list_pages w (p # q # ps) n items tr =
     (if fails w tr (ListEvents n) then (tr @ [ListEvents n], Inl StoreError)
      else list_pages w (q # ps) (Suc n) (add_items items p) (tr @ [ListEvents n]))"

definition gcal_list_existing ::
  "world \<Rightarrow> call list \<Rightarrow> call list \<times> (py_error + (string \<times> gevent) list)" where
  "gcal_list_existing w tr = list_pages w (pages w) 0 [] tr"

text \<open>
  The upsert loop over the items of \<open>src\<close>: patch when the identity exists with another
  fingerprint, nothing when the fingerprint is the same, insert when the identity does not
  exist. A call that raises ends the run.
\<close>

fun upsert ::
  "world \<Rightarrow> (string \<times> gevent) list \<Rightarrow> (string \<times> resource) list \<Rightarrow> call list
     \<Rightarrow> call list \<times> py_error option" where
  "upsert w existing [] tr = (tr, None)"
| "upsert w existing ((uid, res) # rest) tr =
     (case map_of existing uid of
        Some ex \<Rightarrow>
          if ev_fp ex \<noteq> Some (private_fp res)
          then (if fails w tr (Patch (gid ex) res)
                then (tr @ [Patch (gid ex) res], Some StoreError)
                else upsert w existing rest (tr @ [Patch (gid ex) res]))
          else upsert w existing rest tr
      | None \<Rightarrow>
          if fails w tr (Insert res) then (tr @ [Insert res], Some StoreError)
          else upsert w existing rest (tr @ [Insert res]))"

text \<open>The delete loop over the items of \<open>existing\<close>.\<close>

fun delete_disappeared ::
  "world \<Rightarrow> (string \<times> resource) list \<Rightarrow> (string \<times> gevent) list \<Rightarrow> call list
     \<Rightarrow> call list \<times> py_error option" where
  "delete_disappeared w src [] tr = (tr, None)"
| "delete_disappeared w src ((uid, ex) # rest) tr =
     (if map_of src uid = None
      then (if fails w tr (Delete (gid ex)) then (tr @ [Delete (gid ex)], Some StoreError)
            else delete_disappeared w src rest (tr @ [Delete (gid ex)]))
      else delete_disappeared w src rest tr)"

text \<open>Steps 3 to 6 of \<open>main\<close>, after the new state has been saved.\<close>

definition reconcile :: "config \<Rightarrow> world \<Rightarrow> string \<Rightarrow> call list \<Rightarrow> call list \<times> py_error option" where
  "reconcile cfg w cont tr =
     (case from_ical w cont of
        Inl e \<Rightarrow> (tr, Some e)
      | Inr comps \<Rightarrow>
     (case fromutc (TZ cfg) (now_utc w) of
        Inl e \<Rightarrow> (tr, Some e)
      | Inr now \<Rightarrow>
     (case add_timedelta now (- (PAST_DAYS cfg * US_PER_DAY)) of
        Inl e \<Rightarrow> (tr, Some e)
      | Inr cutoff \<Rightarrow>
     (case build_src cfg cutoff comps [] of
        Inl e \<Rightarrow> (tr, Some e)
      | Inr src \<Rightarrow>
     (case gcal_list_existing w tr of
        (tr1, Inl e) \<Rightarrow> (tr1, Some e)
      | (tr1, Inr existing) \<Rightarrow>
     (case upsert w existing src tr1 of
        (tr2, Some e) \<Rightarrow> (tr2, Some e)
      | (tr2, None) \<Rightarrow> delete_disappeared w src existing tr2))))))"

definition main :: "config \<Rightarrow> world \<Rightarrow> call list \<times> py_error option" where
  "main cfg w =
     (if \<not> (truthy (ICS_URL cfg) \<and> truthy (TARGET_CALENDAR_ID cfg)) then ([], Some AssertionError)
      else if gcal_service w \<noteq> None then ([], gcal_service w)
      else
        let state = load_state w
        in case http_get w (request_headers state) of
             Inl e \<Rightarrow> ([], Some e)
           | Inr r \<Rightarrow>
               if status_code r = 304 then ([], None)
               else if 400 \<le> status_code r \<and> status_code r < 600 then ([], Some HTTPError)
               else
                 let curr_hash = md5_hexdigest cfg (content r)
                 in if Some curr_hash = hash state then ([], None)
                    else
                      let new_state = \<lparr>etag = header_ETag r,
                                        last_modified = header_Last_Modified r,
                                        hash = Some curr_hash\<rparr>
                      in if fails w [] (SaveState new_state)
                         then ([SaveState new_state], Some OSError)
                         else reconcile cfg w (content r) [SaveState new_state])"

section \<open>Sample zone data\<close>

text \<open>
  The zones used where a statement is evaluated at a concrete input: Europe/Paris, Europe/Helsinki and America/New\_York with their first info (local mean
  time, as pytz rounds it) and their transitions of the year 2025; outside 2025 the
  sample zones stay on standard time.
\<close>

definition dst_zone ::
  "string \<Rightarrow> tzinf \<Rightarrow> tzinf \<Rightarrow> tzinf \<Rightarrow> int \<Rightarrow> int \<Rightarrow> zone" where
  "dst_zone name lmt std dst t_on t_off =
     \<lparr>zname = name, first_inf = lmt,
      inf_at_utc = (\<lambda>u. if t_on \<le> u \<and> u < t_off then dst else std),
      inf_at_wall = (\<lambda>w. if t_on + utcoff dst * US_PER_SEC \<le> w
                             \<and> w < t_off + utcoff std * US_PER_SEC then dst else std)\<rparr>"

definition Europe_Paris :: zone where
  "Europe_Paris =
     dst_zone ''Europe/Paris''
       \<lparr>utcoff = 540, dstoff = 0, abbr = ''LMT''\<rparr>
       \<lparr>utcoff = 3600, dstoff = 0, abbr = ''CET''\<rparr>
       \<lparr>utcoff = 7200, dstoff = 3600, abbr = ''CEST''\<rparr>
       (mk_wall 2025 3 30 1 0 0) (mk_wall 2025 10 26 1 0 0)"

definition Europe_Helsinki :: zone where
  "Europe_Helsinki =
     dst_zone ''Europe/Helsinki''
       \<lparr>utcoff = 6000, dstoff = 0, abbr = ''LMT''\<rparr>
       \<lparr>utcoff = 7200, dstoff = 0, abbr = ''EET''\<rparr>
       \<lparr>utcoff = 10800, dstoff = 3600, abbr = ''EEST''\<rparr>
       (mk_wall 2025 3 30 1 0 0) (mk_wall 2025 10 26 1 0 0)"

definition America_New_York :: zone where
  "America_New_York =
     dst_zone ''America/New_York''
       \<lparr>utcoff = - 17760, dstoff = 0, abbr = ''LMT''\<rparr>
       \<lparr>utcoff = - 18000, dstoff = 0, abbr = ''EST''\<rparr>
       \<lparr>utcoff = - 14400, dstoff = 3600, abbr = ''EDT''\<rparr>
       (mk_wall 2025 3 9 7 0 0) (mk_wall 2025 11 2 6 0 0)"

text \<open>A stand-in digest for evaluation: the digested text itself.\<close>

definition sample_digest :: "string \<Rightarrow> string" where
  "sample_digest s = s"

definition sample_tzdb :: "string \<Rightarrow> zone option" where
  "sample_tzdb name =
     (if name = ''UTC'' then Some UTC
      else if name = ''Europe/Paris'' then Some Europe_Paris
      else if name = ''Europe/Helsinki'' then Some Europe_Helsinki
      else if name = ''America/New_York'' then Some America_New_York
      else None)"

definition sample_cfg :: config where
  "sample_cfg =
     \<lparr>tzdb = sample_tzdb, TIMEZONE = ''Europe/Paris'', TZ = Europe_Paris, PAST_DAYS = 30,
      ICS_URL = Some ''https://feed.example/calendar.ics'',
      TARGET_CALENDAR_ID = Some ''primary'',
      md5_hexdigest = sample_digest, local_utcoff = (\<lambda>w. 0)\<rparr>"
section \<open>Sample events\<close>

text \<open>
  The events at which statements are evaluated, and two projections of a result of
  \<open>to_gcal_resource\<close>. \<open>standup_event\<close> is the timed event of 2025-01-10 09:00 in
  Europe/Paris with neither end nor duration. \<open>mixed_event\<close> has a date as its start and
  a datetime as its end.
\<close>

definition start_end_of :: "py_error + string \<times> resource \<Rightarrow> py_error + gtime \<times> gtime" where
  "start_end_of x = (case x of Inl e \<Rightarrow> Inl e | Inr (uid, r) \<Rightarrow> Inr (start r, end_time r))"

definition standup_event :: vevent where
  "standup_event =
     \<lparr>UID = Some ''standup-1'', RECURRENCE_ID = None, SUMMARY = Some ''Standup'',
      DESCRIPTION = None, LOCATION = None,
      DTSTART = Some \<lparr>dt = PNaive (mk_wall 2025 1 10 9 0 0), TZID = Some ''Europe/Paris''\<rparr>,
      DTEND = None, DURATION = None, RRULE = None, EXDATE = [], RDATE = []\<rparr>"

definition mixed_event :: vevent where
  "mixed_event =
     \<lparr>UID = Some ''review-1'', RECURRENCE_ID = None, SUMMARY = Some ''Review'',
      DESCRIPTION = None, LOCATION = None,
      DTSTART = Some \<lparr>dt = PDate (ymd2ord 2025 9 4), TZID = None\<rparr>,
      DTEND = Some \<lparr>dt = PNaive (mk_wall 2025 9 4 10 0 0), TZID = None\<rparr>,
      DURATION = None, RRULE = None, EXDATE = [], RDATE = []\<rparr>"

definition holiday_event :: vevent where
  "holiday_event =
     \<lparr>UID = Some ''holiday-1'', RECURRENCE_ID = None, SUMMARY = Some ''Holiday'',
      DESCRIPTION = None, LOCATION = None,
      DTSTART = Some \<lparr>dt = PDate (ymd2ord 2025 9 4), TZID = None\<rparr>,
      DTEND = None, DURATION = None, RRULE = None, EXDATE = [], RDATE = []\<rparr>"

definition weekly_event :: vevent where
  "weekly_event =
     \<lparr>UID = Some ''weekly-1'', RECURRENCE_ID = None, SUMMARY = Some ''Weekly'',
      DESCRIPTION = None, LOCATION = Some ''Room 1'',
      DTSTART = Some \<lparr>dt = PNaive (mk_wall 2025 1 6 9 0 0),
                       TZID = Some ''Romance Standard Time''\<rparr>,
      DTEND = Some \<lparr>dt = PNaive (mk_wall 2025 1 6 10 0 0),
                     TZID = Some ''Romance Standard Time''\<rparr>,
      DURATION = None,
      RRULE = Some [(''FREQ'', [RStr ''WEEKLY'']), (''UNTIL'', [RDt (PDate (ymd2ord 2025 12 31))])],
      EXDATE = [], RDATE = []\<rparr>"

definition recent_event :: vevent where
  "recent_event =
     \<lparr>UID = Some ''recent-1'', RECURRENCE_ID = None, SUMMARY = Some ''Recent'',
      DESCRIPTION = None, LOCATION = None,
      DTSTART = Some \<lparr>dt = PNaive (mk_wall 2025 2 20 14 0 0), TZID = Some ''Europe/Paris''\<rparr>,
      DTEND = None, DURATION = Some (30 * 60 * US_PER_SEC), RRULE = None,
      EXDATE = [], RDATE = []\<rparr>"

text \<open>
  A sample time of a run, 2025-03-01 12:00 UTC, and the cutoff thirty days before it in
  the default zone.
\<close>

definition sample_now_utc :: int where
  "sample_now_utc = mk_wall 2025 3 1 12 0 0"

definition sample_cutoff :: adt where
  "sample_cutoff =
     \<lparr>wall = mk_wall 2025 1 30 13 0 0,
      tzi = Pytz ''Europe/Paris'' \<lparr>utcoff = 3600, dstoff = 0, abbr = ''CET''\<rparr>\<rparr>"

text \<open>
  An event is kept by the snapshot loop when it has a DTSTART and the test of the loop
  is true; \<open>keys_of\<close> are the identities of a snapshot.
\<close>

definition kept :: "config \<Rightarrow> adt \<Rightarrow> vevent \<Rightarrow> bool" where
  "kept cfg cutoff ev =
     (case DTSTART ev of None \<Rightarrow> False | Some p \<Rightarrow> event_keep cfg cutoff ev p = Inr True)"

definition keys_of :: "py_error + (string \<times> resource) list \<Rightarrow> py_error + string list" where
  "keys_of x = (case x of Inl e \<Rightarrow> Inl e | Inr src \<Rightarrow> Inr (map fst src))"

text \<open>
  The calls that change the target calendar, the calls on the calendar at all, and
  whether a call concerns an identity: an insert or patch whose body carries the
  identity, or a delete of the existing event stored under it.
\<close>

fun is_mutation :: "call \<Rightarrow> bool" where
  "is_mutation (Insert r) = True"
| "is_mutation (Patch i r) = True"
| "is_mutation (Delete i) = True"
| "is_mutation (SaveState s) = False"
| "is_mutation (ListEvents n) = False"

fun is_store_call :: "call \<Rightarrow> bool" where
  "is_store_call (SaveState s) = False"
| "is_store_call c = True"

fun touches :: "(string \<times> gevent) list \<Rightarrow> string \<Rightarrow> call \<Rightarrow> bool" where
  "touches existing uid (Insert r) = (private_outlook_uid r = uid)"
| "touches existing uid (Patch i r) = (private_outlook_uid r = uid)"
| "touches existing uid (Delete i) =
     (case map_of existing uid of None \<Rightarrow> False | Some ex \<Rightarrow> gid ex = i)"
| "touches existing uid (SaveState s) = False"
| "touches existing uid (ListEvents n) = False"

text \<open>The calls of an upsert loop and of a delete loop that run to their end.\<close>

definition upsert_calls :: "(string \<times> gevent) list \<Rightarrow> (string \<times> resource) list \<Rightarrow> call list" where
  "upsert_calls existing src =
     concat (map (\<lambda>(uid, res).
        case map_of existing uid of
          Some ex \<Rightarrow> if ev_fp ex \<noteq> Some (private_fp res) then [Patch (gid ex) res] else []
        | None \<Rightarrow> [Insert res]) src)"

definition delete_calls :: "(string \<times> resource) list \<Rightarrow> (string \<times> gevent) list \<Rightarrow> call list" where
  "delete_calls src existing =
     concat (map (\<lambda>(uid, ex). if map_of src uid = None then [Delete (gid ex)] else [])
        existing)"

text \<open>
  A sample run. The state file holds an older hash; the server answers 200 with new
  content; the feed has the four events above and a record without DTSTART; the calendar
  lists, on two pages, an event for \<open>weekly-1\<close> with a stale fingerprint, an event for
  \<open>gone-1\<close>, and an event for \<open>recent-1\<close> whose fingerprint is the current one; no call
  raises. \<open>call_label\<close> names a call by its kind and identity, and \<open>run_of\<close> gives
  the labels of the calls of a run and its outcome.
\<close>

definition nostart_event :: vevent where
  "nostart_event =
     \<lparr>UID = Some ''gone-1'', RECURRENCE_ID = None, SUMMARY = Some ''No start'',
      DESCRIPTION = None, LOCATION = None, DTSTART = None, DTEND = None, DURATION = None,
      RRULE = Some [(''FREQ'', [RStr ''DAILY''])], EXDATE = [], RDATE = []\<rparr>"

definition sample_feed :: "vevent list" where
  "sample_feed = [standup_event, weekly_event, nostart_event, recent_event, holiday_event]"

definition fp_of :: "py_error + string \<times> resource \<Rightarrow> string option" where
  "fp_of x = (case x of Inl e \<Rightarrow> None | Inr (uid, r) \<Rightarrow> Some (private_fp r))"

definition sample_world :: world where
  "sample_world =
     \<lparr>gcal_service = None,
      load_state = \<lparr>etag = Some ''v1'', last_modified = None, hash = Some ''feed-1''\<rparr>,
      http_get = (\<lambda>headers. Inr \<lparr>status_code = 200, header_ETag = Some ''v2'',
                                  header_Last_Modified = None, content = ''feed-2''\<rparr>),
      from_ical = (\<lambda>c. Inr sample_feed),
      now_utc = sample_now_utc,
      pages = [[\<lparr>gid = ''g-weekly'', ev_outlook_uid = Some ''weekly-1'',
                  ev_fp = Some ''stale''\<rparr>,
                \<lparr>gid = ''g-gone'', ev_outlook_uid = Some ''gone-1'', ev_fp = Some ''f''\<rparr>],
               [\<lparr>gid = ''g-recent'', ev_outlook_uid = Some ''recent-1'',
                  ev_fp = fp_of (to_gcal_resource sample_cfg recent_event)\<rparr>]],
      fails = (\<lambda>tr c. False)\<rparr>"

fun call_label :: "call \<Rightarrow> string" where
  "call_label (SaveState s) = ''save''"
| "call_label (ListEvents n) = ''list''"
| "call_label (Insert r) = ''insert '' @ private_outlook_uid r"
| "call_label (Patch i r) = ''patch '' @ i @ '' '' @ private_outlook_uid r"
| "call_label (Delete i) = ''delete '' @ i"

definition run_of :: "call list \<times> py_error option \<Rightarrow> string list \<times> py_error option" where
  "run_of x = (map call_label (fst x), snd x)"

text \<open>
  Two runs that find the feed unchanged: the server answers 304; the server answers 200
  with content whose hash is the persisted one.
\<close>

definition not_modified_world :: world where
  "not_modified_world =
     sample_world\<lparr>http_get := (\<lambda>headers. Inr \<lparr>status_code = 304, header_ETag = None,
                                              header_Last_Modified = None, content = []\<rparr>)\<rparr>"

definition same_hash_world :: world where
  "same_hash_world =
     sample_world\<lparr>load_state := \<lparr>etag = None, last_modified = None,
                                  hash = Some (sample_digest ''feed-2'')\<rparr>\<rparr>"

text \<open>
  A run at the edge of the retention window: it is 2025-03-01 00:30 in Paris
  (2025-02-28 23:30 UTC), so the cutoff is 2025-01-30 00:30 +01:00. The feed has an all-day
  event on 2025-01-30 and a timed event at 2025-01-30 00:00 without a timezone parameter;
  the calendar is empty.
\<close>

definition boundary_allday_event :: vevent where
  "boundary_allday_event =
     \<lparr>UID = Some ''inventory-1'', RECURRENCE_ID = None, SUMMARY = Some ''Inventory'',
      DESCRIPTION = None, LOCATION = None,
      DTSTART = Some \<lparr>dt = PDate (ymd2ord 2025 1 30), TZID = None\<rparr>,
      DTEND = None, DURATION = None, RRULE = None, EXDATE = [], RDATE = []\<rparr>"

definition boundary_timed_event :: vevent where
  "boundary_timed_event =
     \<lparr>UID = Some ''midnight-1'', RECURRENCE_ID = None, SUMMARY = Some ''Midnight'',
      DESCRIPTION = None, LOCATION = None,
      DTSTART = Some \<lparr>dt = PNaive (mk_wall 2025 1 30 0 0 0), TZID = None\<rparr>,
      DTEND = None, DURATION = None, RRULE = None, EXDATE = [], RDATE = []\<rparr>"

definition boundary_now_utc :: int where
  "boundary_now_utc = mk_wall 2025 2 28 23 30 0"

definition boundary_cutoff :: adt where
  "boundary_cutoff =
     \<lparr>wall = mk_wall 2025 1 30 0 30 0,
      tzi = Pytz ''Europe/Paris'' \<lparr>utcoff = 3600, dstoff = 0, abbr = ''CET''\<rparr>\<rparr>"

definition boundary_world :: world where
  "boundary_world =
     sample_world\<lparr>from_ical := (\<lambda>c. Inr [boundary_allday_event, boundary_timed_event]),
                  now_utc := boundary_now_utc, pages := []\<rparr>"

text \<open>
  The form of a compact UTC timestamp: eight digits, \<open>T\<close>, six digits, \<open>Z\<close>.
\<close>

definition compact_utc_form :: "string \<Rightarrow> bool" where
  "compact_utc_form s =
     (length s = 16 \<and> list_all is_digit_char (take 8 s) \<and> s ! 8 = CHR ''T''
      \<and> list_all is_digit_char (take 6 (drop 9 s)) \<and> s ! 15 = CHR ''Z'')"

text \<open>
  A feed value is valid when it denotes a date or datetime of the standard library: the
  ordinal of a date is between 1 and 3652059, a wall clock is in range, and an offset is
  strictly between minus and plus one day.
\<close>

definition valid_tzi :: "tzinfo \<Rightarrow> bool" where
  "valid_tzi t = (- 86400 * US_PER_SEC < offset_us t \<and> offset_us t < 86400 * US_PER_SEC)"

definition valid_adt :: "adt \<Rightarrow> bool" where
  "valid_adt d = (in_range (wall d) \<and> valid_tzi (tzi d))"

fun valid_pyval :: "pyval \<Rightarrow> bool" where
  "valid_pyval (PDate d) = (1 \<le> d \<and> d \<le> MAXORDINAL)"
| "valid_pyval (PNaive w) = in_range w"
| "valid_pyval (PAware a) = valid_adt a"

text \<open>
  The instant of an UNTIL value in UTC, as microseconds since 0001-01-01T00:00:00 UTC:
  midnight for a date, the naive wall clock less the local offset, the instant of an
  aware datetime; and the year of an instant in UTC.
\<close>

fun until_instant :: "config \<Rightarrow> pyval \<Rightarrow> int" where
  "until_instant cfg (PDate d) = midnight d"
| "until_instant cfg (PNaive w) = w - local_utcoff cfg w * US_PER_SEC"
| "until_instant cfg (PAware a) = utc_us a"

definition utc_year :: "int \<Rightarrow> int" where
  "utc_year u = (case ord2ymd (wall_ordinal u) of (y, m, d) \<Rightarrow> y)"

text \<open>
  The compact timestamp \<open>YYYYMMDDThhmmssZ\<close> of an instant as the specification words it:
  four digits of the year, two each of month, day, hour, minute and second.
\<close>

definition compact_utc :: "int \<Rightarrow> string" where
  "compact_utc u =
     (case ord2ymd (wall_ordinal u) of
        (y, m, d) \<Rightarrow> zpad 4 y @ zpad 2 m @ zpad 2 d @ ''T'' @ zpad 2 (wall_hour u)
                       @ zpad 2 (wall_minute u) @ zpad 2 (wall_second u) @ ''Z'')"

text \<open>Text of ASCII characters, on which \<open>upper\<close> is \<open>str.upper\<close>.\<close>

definition is_ascii :: "string \<Rightarrow> bool" where
  "is_ascii s = list_all (\<lambda>c. (of_char c :: int) < 128) s"









text \<open>Whether a feed value is a date without a time.\<close>

fun is_pdate :: "pyval \<Rightarrow> bool" where
  "is_pdate (PDate d) = True"
| "is_pdate (PNaive w) = False"
| "is_pdate (PAware a) = False"

section \<open>Properties of normalize\_dt\<close>

lemma normalize_dt_flag:
  "normalize_dt cfg v s t = Inr (b, d) \<Longrightarrow> b = is_pdate v"
  by (auto simp: normalize_dt_def split: sum.splits pyval.splits tzarg.splits if_splits)

lemma normalize_dt_date_obj:
  "normalize_dt cfg (PDate d) s (TzObj z) = Inr (True, replace_tzinfo (midnight d) z)"
  by (simp add: normalize_dt_def)

lemma normalize_dt_date_default:
  "normalize_dt cfg (PDate d) s TzNone = Inr (True, replace_tzinfo (midnight d) (TZ cfg))"
  by (simp add: normalize_dt_def)

text \<open>
  C9. For a date, \<open>normalize_dt\<close> returns the all-day flag and the wall clock 00:00 of
  that date whatever the source zone is, but the offset it attaches is the first info of
  the zone object, not the offset of the zone on that date: for 2025-01-10 and the
  default zone Europe/Paris the result is 2025-01-10T00:00:00+00:09, fifty-one minutes
  after the midnight 2025-01-10T00:00:00+01:00 that \<open>localize\<close>, which the branch for naive
  datetimes uses, gives for the same wall clock.
\<close>

theorem normalize_dt_date_paris_first_offset:
  "normalize_dt sample_cfg (PDate (ymd2ord 2025 1 10)) None TzNone
     = Inr (True, \<lparr>wall = mk_wall 2025 1 10 0 0 0,
                    tzi = Pytz ''Europe/Paris'' \<lparr>utcoff = 540, dstoff = 0, abbr = ''LMT''\<rparr>\<rparr>)
   \<and> isoformat \<lparr>wall = mk_wall 2025 1 10 0 0 0,
                 tzi = Pytz ''Europe/Paris'' \<lparr>utcoff = 540, dstoff = 0, abbr = ''LMT''\<rparr>\<rparr>
       = ''2025-01-10T00:00:00+00:09''
   \<and> isoformat (localize Europe_Paris (mk_wall 2025 1 10 0 0 0)) = ''2025-01-10T00:00:00+01:00''
   \<and> utc_us \<lparr>wall = mk_wall 2025 1 10 0 0 0,
              tzi = Pytz ''Europe/Paris'' \<lparr>utcoff = 540, dstoff = 0, abbr = ''LMT''\<rparr>\<rparr>
       - utc_us (localize Europe_Paris (mk_wall 2025 1 10 0 0 0)) = 51 * 60 * US_PER_SEC"
  by code_simp

section \<open>All-day flags of start and end\<close>

lemma is_date_time_field: "is_date (time_field b d z) = b"
  by (simp add: time_field_def)

lemma resource_times_flags:
  assumes "resource_times cfg ev = Inr t"
  shows "\<exists>p. DTSTART ev = Some p \<and> allday_start t = is_pdate (dt p)
     \<and> allday_end t = (case DTEND ev of None \<Rightarrow> allday_start t | Some q \<Rightarrow> is_pdate (dt q))"
  using assms
  by (auto simp: resource_times_def Let_def split: sum.splits option.splits prod.splits
      dest: normalize_dt_flag)

lemma to_gcal_resource_times:
  assumes "to_gcal_resource cfg ev = Inr (uid, r)"
  shows "\<exists>t. resource_times cfg ev = Inr t
    \<and> start r = time_field (allday_start t) (start_dt_local t) (event_tzid t)
    \<and> end_time r = time_field (allday_end t) (end_dt_local t) (event_tzid t)"
  using assms
  by (auto simp: to_gcal_resource_def Let_def split: sum.splits)

lemma standup_start_end:
  "start_end_of (to_gcal_resource sample_cfg standup_event) =
     Inr (GDateTime ''2025-01-10T09:00:00+01:00'' ''Europe/Paris'',
          GDateTime ''2025-01-10T10:00:00+01:00'' ''Europe/Paris'')"
  by code_simp

lemma start_end_of_InrD:
  "start_end_of x = Inr (s, e) \<Longrightarrow> \<exists>uid r. x = Inr (uid, r) \<and> start r = s \<and> end_time r = e"
  by (auto simp: start_end_of_def split: sum.splits)

text \<open>
  C1, as the code has it. The start of the resource is of the \<open>date\<close> form exactly when
  DTSTART is a date. When the event has no DTEND (the end comes from DURATION or from the
  default span) the end has the form of the start; when it has a DTEND, the end is of the
  \<open>date\<close> form exactly when DTEND is a date, whatever DTSTART is.
\<close>

theorem to_gcal_resource_allday_flags:
  assumes "to_gcal_resource cfg ev = Inr (uid, r)"
  shows "\<exists>p. DTSTART ev = Some p \<and> is_date (start r) = is_pdate (dt p)
     \<and> is_date (end_time r)
         = (case DTEND ev of None \<Rightarrow> is_date (start r) | Some q \<Rightarrow> is_pdate (dt q))"
proof -
  from to_gcal_resource_times[OF assms] obtain t where t: "resource_times cfg ev = Inr t"
    and s: "start r = time_field (allday_start t) (start_dt_local t) (event_tzid t)"
    and e: "end_time r = time_field (allday_end t) (end_dt_local t) (event_tzid t)"
    by blast
  from resource_times_flags[OF t] s e show ?thesis
    by (auto simp: is_date_time_field split: option.splits)
qed

theorem to_gcal_resource_allday_flags_witness:
  "start_end_of (to_gcal_resource sample_cfg standup_event)
     = Inr (GDateTime ''2025-01-10T09:00:00+01:00'' ''Europe/Paris'',
            GDateTime ''2025-01-10T10:00:00+01:00'' ''Europe/Paris'')
   \<and> DTEND standup_event = None
   \<and> is_date (GDateTime ''2025-01-10T10:00:00+01:00'' ''Europe/Paris'')
       = is_date (GDateTime ''2025-01-10T09:00:00+01:00'' ''Europe/Paris'')"
proof -
  from start_end_of_InrD[OF standup_start_end] obtain uid r
    where h: "to_gcal_resource sample_cfg standup_event = Inr (uid, r)"
      and s: "start r = GDateTime ''2025-01-10T09:00:00+01:00'' ''Europe/Paris''"
      and e: "end_time r = GDateTime ''2025-01-10T10:00:00+01:00'' ''Europe/Paris''"
    by blast
  have n: "DTEND standup_event = None"
    by (simp add: standup_event_def)
  from to_gcal_resource_allday_flags[OF h] n s e standup_start_end show ?thesis
    by auto
qed

text \<open>
  C1, as stated, fails: an event whose DTSTART is the date 2025-09-04 and whose DTEND is
  the datetime 2025-09-04 10:00 gets a start of the \<open>date\<close> form and an end of the
  \<open>dateTime\<close> form.
\<close>

theorem allday_flags_differ_counterexample:
  "start_end_of (to_gcal_resource sample_cfg mixed_event)
     = Inr (GDate ''2025-09-04'', GDateTime ''2025-09-04T10:00:00+02:00'' ''Europe/Paris'')
   \<and> is_date (GDate ''2025-09-04'')
   \<and> \<not> is_date (GDateTime ''2025-09-04T10:00:00+02:00'' ''Europe/Paris'')"
  by code_simp

section \<open>Arithmetic of zoned datetimes\<close>

lemma chk_Inr: "chk x = Inr y \<longleftrightarrow> (in_range x \<and> y = x)"
  by (auto simp: chk_def)

lemma fromutc_utc:
  "fromutc z u = Inr r \<Longrightarrow>
     utc_us r = u \<and> tzi r = Pytz (zname z) (inf_at_utc z u) \<and> in_range (wall r)"
  by (auto simp: fromutc_def Let_def utc_us_def chk_Inr split: sum.splits)

lemma astimezone_self: "tzi d = Pytz (zname z) (first_inf z) \<Longrightarrow> astimezone d z = Inr d"
  by (simp add: astimezone_def)

lemma astimezone_utc: "astimezone d z = Inr r \<Longrightarrow> utc_us r = utc_us d"
  by (auto simp: astimezone_def chk_Inr utc_us_def split: if_splits sum.splits
      dest!: fromutc_utc)

lemma astimezone_tzi: "astimezone d z = Inr r \<Longrightarrow> \<exists>i. tzi r = Pytz (zname z) i"
  by (auto simp: astimezone_def split: if_splits sum.splits dest!: fromutc_utc)

lemma add_timedelta_Inr:
  "add_timedelta d td = Inr s \<Longrightarrow>
     wall s = wall d + td \<and> tzi s = tzi d \<and> utc_us s = utc_us d + td"
  by (auto simp: add_timedelta_def chk_Inr utc_us_def split: sum.splits)

lemma wall_ordinal_next_day: "wall_ordinal (w + US_PER_DAY) = wall_ordinal w + 1"
  by (simp add: wall_ordinal_def US_PER_DAY_def)

section \<open>The default end\<close>

lemma resource_times_default:
  assumes "resource_times cfg ev = Inr t" "DTEND ev = None" "DURATION ev = None"
  shows "\<exists>p s. DTSTART ev = Some p
     \<and> normalize_dt cfg (dt p) (TZID p) (TzObj (event_tz t))
         = Inr (allday_start t, start_dt_local t)
     \<and> add_timedelta (start_dt_local t) (if allday_start t then US_PER_DAY else US_PER_HOUR)
         = Inr s
     \<and> astimezone s (event_tz t) = Inr (end_dt_local t)
     \<and> allday_end t = allday_start t"
  using assms
  by (auto simp: resource_times_def Let_def split: sum.splits option.splits prod.splits)

lemma normalize_dt_allday_tzi:
  "normalize_dt cfg v s (TzObj z) = Inr (True, d) \<Longrightarrow> tzi d = Pytz (zname z) (first_inf z)"
  by (auto simp: normalize_dt_def replace_tzinfo_def split: pyval.splits sum.splits if_splits)

lemma resource_times_default_end:
  assumes "resource_times cfg ev = Inr t" "DTEND ev = None" "DURATION ev = None"
  shows "utc_us (end_dt_local t)
           = utc_us (start_dt_local t) + (if allday_start t then US_PER_DAY else US_PER_HOUR)
     \<and> (\<exists>i. tzi (end_dt_local t) = Pytz (zname (event_tz t)) i)
     \<and> allday_end t = allday_start t
     \<and> (allday_start t \<longrightarrow> wall (end_dt_local t) = wall (start_dt_local t) + US_PER_DAY)"
proof -
  from resource_times_default[OF assms] obtain p s where
    dp: "DTSTART ev = Some p" and
    n: "normalize_dt cfg (dt p) (TZID p) (TzObj (event_tz t))
          = Inr (allday_start t, start_dt_local t)" and
    a: "add_timedelta (start_dt_local t) (if allday_start t then US_PER_DAY else US_PER_HOUR)
          = Inr s" and
    z: "astimezone s (event_tz t) = Inr (end_dt_local t)" and
    f: "allday_end t = allday_start t"
    by blast
  note s = add_timedelta_Inr[OF a]
  have 1: "utc_us (end_dt_local t)
             = utc_us (start_dt_local t) + (if allday_start t then US_PER_DAY else US_PER_HOUR)"
    using astimezone_utc[OF z] s by simp
  have 2: "\<exists>i. tzi (end_dt_local t) = Pytz (zname (event_tz t)) i"
    by (rule astimezone_tzi[OF z])
  have 3: "wall (end_dt_local t) = wall (start_dt_local t) + US_PER_DAY" if ad: "allday_start t"
  proof -
    from n ad have "tzi (start_dt_local t) = Pytz (zname (event_tz t)) (first_inf (event_tz t))"
      by (auto dest: normalize_dt_allday_tzi)
    with s have "tzi s = Pytz (zname (event_tz t)) (first_inf (event_tz t))"
      by simp
    from astimezone_self[OF this] z have "end_dt_local t = s"
      by simp
    with s ad show ?thesis
      by simp
  qed
  from 1 2 3 f show ?thesis
    by blast
qed

lemma holiday_start_end:
  "start_end_of (to_gcal_resource sample_cfg holiday_event)
     = Inr (GDate ''2025-09-04'', GDate ''2025-09-05'')"
  by code_simp

text \<open>
  C8. For an event with neither DTEND nor DURATION the end of the resource is rendered
  from a datetime in the zone of the event whose instant is the instant of the normalized
  start plus one day when the start is all-day and plus one hour when it is timed; the
  end of an all-day event is the date after the start date. The timed event of
  2025-01-10 09:00 Europe/Paris with no end gets the end 2025-01-10T10:00:00+01:00 in
  Europe/Paris, and its start is not of the \<open>date\<close> form.
\<close>

theorem default_end_span:
  assumes "to_gcal_resource cfg ev = Inr (uid, r)" "DTEND ev = None" "DURATION ev = None"
  shows "(\<exists>t. resource_times cfg ev = Inr t
           \<and> start r = time_field (allday_start t) (start_dt_local t) (event_tzid t)
           \<and> end_time r = time_field (allday_start t) (end_dt_local t) (event_tzid t)
           \<and> utc_us (end_dt_local t)
               = utc_us (start_dt_local t)
                   + (if allday_start t then US_PER_DAY else US_PER_HOUR)
           \<and> (\<exists>i. tzi (end_dt_local t) = Pytz (zname (event_tz t)) i)
           \<and> end_time r
               = (if allday_start t
                  then GDate (date_isoformat (wall_ordinal (wall (start_dt_local t)) + 1))
                  else GDateTime (isoformat (end_dt_local t)) (event_tzid t)))
     \<and> start_end_of (to_gcal_resource sample_cfg standup_event)
         = Inr (GDateTime ''2025-01-10T09:00:00+01:00'' ''Europe/Paris'',
                GDateTime ''2025-01-10T10:00:00+01:00'' ''Europe/Paris'')"
proof -
  from to_gcal_resource_times[OF assms(1)] obtain t where t: "resource_times cfg ev = Inr t"
    and s: "start r = time_field (allday_start t) (start_dt_local t) (event_tzid t)"
    and e: "end_time r = time_field (allday_end t) (end_dt_local t) (event_tzid t)"
    by blast
  note d = resource_times_default_end[OF t assms(2) assms(3)]
  from d e have e': "end_time r = time_field (allday_start t) (end_dt_local t) (event_tzid t)"
    by simp
  have "end_time r
          = (if allday_start t
             then GDate (date_isoformat (wall_ordinal (wall (start_dt_local t)) + 1))
             else GDateTime (isoformat (end_dt_local t)) (event_tzid t))"
    using e' d by (simp add: time_field_def wall_ordinal_next_day)
  with t s e' d standup_start_end show ?thesis
    by blast
qed

theorem default_end_span_witness:
  "start_end_of (to_gcal_resource sample_cfg holiday_event)
     = Inr (GDate ''2025-09-04'', GDate ''2025-09-05'')
   \<and> DTEND holiday_event = None \<and> DURATION holiday_event = None
   \<and> (\<exists>t. resource_times sample_cfg holiday_event = Inr t
          \<and> utc_us (end_dt_local t)
              = utc_us (start_dt_local t)
                  + (if allday_start t then US_PER_DAY else US_PER_HOUR))"
proof -
  from start_end_of_InrD[OF holiday_start_end] obtain uid r
    where h: "to_gcal_resource sample_cfg holiday_event = Inr (uid, r)"
    by blast
  have n: "DTEND holiday_event = None" "DURATION holiday_event = None"
    by (simp_all add: holiday_event_def)
  from default_end_span[OF h n] holiday_start_end n show ?thesis
    by blast
qed

section \<open>The snapshot loop\<close>

lemma event_keep_Inr:
  assumes "event_keep cfg cutoff ev p = Inr keep"
  shows "\<exists>b d. normalize_dt cfg (dt p) (TZID p) TzNone = Inr (b, d)
     \<and> keep = ((RRULE ev \<noteq> None \<and> RECURRENCE_ID ev = None) \<or> utc_us cutoff \<le> utc_us d)"
  using assms
  by (auto simp: event_keep_def Let_def dt_ge_def split: sum.splits prod.splits if_splits)

lemma set_AList_update: "set (AList.update k v al) \<subseteq> insert (k, v) (set al)"
  by (induction al) auto

lemma build_src_entries:
  "build_src cfg cutoff evs src0 = Inr src \<Longrightarrow> (uid, res) \<in> set src \<Longrightarrow>
     (uid, res) \<in> set src0
     \<or> (\<exists>ev\<in>set evs. kept cfg cutoff ev \<and> to_gcal_resource cfg ev = Inr (uid, res))"
proof (induction evs arbitrary: src0)
  case Nil
  then show ?case by simp
next
  case (Cons ev evs)
  show ?case
  proof (cases "DTSTART ev")
    case None
    with Cons show ?thesis by auto
  next
    case (Some p)
    show ?thesis
    proof (cases "event_keep cfg cutoff ev p")
      case (Inl e)
      with Cons.prems Some show ?thesis by simp
    next
      case (Inr k)
      show ?thesis
      proof (cases k)
        case False
        with Cons Some Inr show ?thesis by auto
      next
        case True
        with Cons.prems Some Inr obtain u r where g: "to_gcal_resource cfg ev = Inr (u, r)"
          and b: "build_src cfg cutoff evs (AList.update u r src0) = Inr src"
          by (auto split: sum.splits)
        from Cons.IH[OF b Cons.prems(2)] have
          "(uid, res) \<in> set (AList.update u r src0)
           \<or> (\<exists>ev\<in>set evs. kept cfg cutoff ev \<and> to_gcal_resource cfg ev = Inr (uid, res))" .
        moreover have "kept cfg cutoff ev"
          using Some Inr True by (simp add: kept_def)
        moreover have "(uid, res) \<in> set (AList.update u r src0) \<Longrightarrow>
            (uid, res) \<in> set src0 \<or> (uid, res) = (u, r)"
          using set_AList_update[of u r src0] by auto
        ultimately show ?thesis using g by auto
      qed
    qed
  qed
qed

lemma build_src_keys_mono:
  "build_src cfg cutoff evs src0 = Inr src \<Longrightarrow> fst ` set src0 \<subseteq> fst ` set src"
proof (induction evs arbitrary: src0)
  case Nil
  then show ?case by simp
next
  case (Cons ev evs)
  from Cons.prems obtain s1 where b: "build_src cfg cutoff evs s1 = Inr src"
    and s: "s1 = src0 \<or> (\<exists>u r. s1 = AList.update u r src0)"
    by (auto split: option.splits sum.splits if_splits prod.splits)
  from s have "fst ` set src0 \<subseteq> fst ` set s1"
    by (force simp: dom_update)
  with Cons.IH[OF b] show ?case by blast
qed

lemma build_src_kept:
  "build_src cfg cutoff evs src0 = Inr src \<Longrightarrow> ev \<in> set evs \<Longrightarrow> kept cfg cutoff ev \<Longrightarrow>
     \<exists>uid res. to_gcal_resource cfg ev = Inr (uid, res) \<and> uid \<in> fst ` set src"
proof (induction evs arbitrary: src0)
  case Nil
  then show ?case by simp
next
  case (Cons e evs)
  show ?case
  proof (cases "ev = e")
    case True
    with Cons.prems obtain p where p: "DTSTART e = Some p" "event_keep cfg cutoff e p = Inr True"
      by (auto simp: kept_def split: option.splits)
    with Cons.prems(1) obtain u r where g: "to_gcal_resource cfg e = Inr (u, r)"
      and b: "build_src cfg cutoff evs (AList.update u r src0) = Inr src"
      by (auto split: sum.splits)
    from build_src_keys_mono[OF b] have "u \<in> fst ` set src"
      by (auto simp: dom_update)
    with g True show ?thesis by auto
  next
    case False
    with Cons.prems have m: "ev \<in> set evs" by simp
    from Cons.prems(1) obtain s1 where "build_src cfg cutoff evs s1 = Inr src"
      by (auto split: option.splits sum.splits if_splits prod.splits)
    from Cons.IH[OF this m Cons.prems(3)] show ?thesis .
  qed
qed

lemma build_src_event_keep:
  "build_src cfg cutoff evs src0 = Inr src \<Longrightarrow> ev \<in> set evs \<Longrightarrow> DTSTART ev = Some p \<Longrightarrow>
     \<exists>k. event_keep cfg cutoff ev p = Inr k"
proof (induction evs arbitrary: src0)
  case Nil
  then show ?case by simp
next
  case (Cons e evs)
  show ?case
  proof (cases "ev = e")
    case True
    with Cons.prems show ?thesis by (auto split: sum.splits)
  next
    case False
    with Cons.prems have m: "ev \<in> set evs" by simp
    from Cons.prems(1) obtain s1 where "build_src cfg cutoff evs s1 = Inr src"
      by (auto split: option.splits sum.splits if_splits prod.splits)
    from Cons.IH[OF this m Cons.prems(3)] show ?thesis .
  qed
qed

lemma build_src_distinct:
  "build_src cfg cutoff evs src0 = Inr src \<Longrightarrow> distinct (map fst src0) \<Longrightarrow>
     distinct (map fst src)"
proof (induction evs arbitrary: src0)
  case Nil
  then show ?case by simp
next
  case (Cons ev evs)
  from Cons.prems(1) obtain s1 where b: "build_src cfg cutoff evs s1 = Inr src"
    and s: "s1 = src0 \<or> (\<exists>u r. s1 = AList.update u r src0)"
    by (auto split: option.splits sum.splits if_splits prod.splits)
  from s Cons.prems(2) have "distinct (map fst s1)"
    by (auto simp: distinct_update)
  from Cons.IH[OF b this] show ?case .
qed

lemma to_gcal_resource_uid:
  "to_gcal_resource cfg ev = Inr (uid, r) \<Longrightarrow> private_outlook_uid r = uid"
  by (auto simp: to_gcal_resource_def Let_def split: sum.splits)

lemma build_src_skip_no_start:
  "DTSTART ev = None \<Longrightarrow>
     build_src cfg cutoff (evs1 @ ev # evs2) src0 = build_src cfg cutoff (evs1 @ evs2) src0"
  by (induction evs1 arbitrary: src0) (auto split: option.splits sum.splits prod.splits)

text \<open>
  C5. The test of the snapshot loop compares the start that \<open>normalize_dt\<close> returns with
  the cutoff. For a date that start is not midnight of the date in the default zone: it
  carries the first offset of the zone (C9). In the run at the edge of the retention
  window the cutoff is 2025-01-30 00:30 +01:00; midnight of 2025-01-30 in Europe/Paris is
  before the cutoff, and the timed event at that midnight is dropped, but the all-day
  event of 2025-01-30 passes the test, is in the snapshot and is inserted.
\<close>

theorem snapshot_filter_allday_boundary:
  "fromutc (TZ sample_cfg) boundary_now_utc
     = Inr \<lparr>wall = mk_wall 2025 3 1 0 30 0,
            tzi = Pytz ''Europe/Paris'' \<lparr>utcoff = 3600, dstoff = 0, abbr = ''CET''\<rparr>\<rparr>
   \<and> add_timedelta \<lparr>wall = mk_wall 2025 3 1 0 30 0,
                     tzi = Pytz ''Europe/Paris'' \<lparr>utcoff = 3600, dstoff = 0, abbr = ''CET''\<rparr>\<rparr>
        (- (PAST_DAYS sample_cfg * US_PER_DAY)) = Inr boundary_cutoff
   \<and> RRULE boundary_allday_event = None
   \<and> utc_us (localize (TZ sample_cfg) (midnight (ymd2ord 2025 1 30))) < utc_us boundary_cutoff
   \<and> kept sample_cfg boundary_cutoff boundary_allday_event
   \<and> \<not> kept sample_cfg boundary_cutoff boundary_timed_event
   \<and> keys_of (build_src sample_cfg boundary_cutoff
                [boundary_allday_event, boundary_timed_event] []) = Inr [''inventory-1'']
   \<and> run_of (main sample_cfg boundary_world)
       = ([''save'', ''list'', ''insert inventory-1''], None)"
  by code_simp

section \<open>The calls of the loops\<close>

lemma list_pages_trace:
  "list_pages w ps n items tr = (tr', res) \<Longrightarrow>
     \<exists>cs. tr' = tr @ cs \<and> (\<forall>c\<in>set cs. \<exists>k. c = ListEvents k)"
proof (induction w ps n items tr rule: list_pages.induct)
  case (1 w n items tr)
  then show ?case by (auto split: if_splits)
next
  case (2 w p n items tr)
  then show ?case by (auto split: if_splits)
next
  case (3 w p q ps n items tr)
  show ?case
  proof (cases "fails w tr (ListEvents n)")
    case True
    with 3 show ?thesis by auto
  next
    case False
    with "3.prems"
    have "list_pages w (q # ps) (Suc n) (add_items items p) (tr @ [ListEvents n]) = (tr', res)"
      by simp
    from "3.IH"[OF False this] obtain cs
      where "tr' = (tr @ [ListEvents n]) @ cs" "\<forall>c\<in>set cs. \<exists>k. c = ListEvents k"
      by blast
    then have "tr' = tr @ (ListEvents n # cs)
        \<and> (\<forall>c\<in>set (ListEvents n # cs). \<exists>k. c = ListEvents k)"
      by simp
    then show ?thesis by blast
  qed
qed

lemma upsert_trace:
  "upsert w existing src tr = (tr', out) \<Longrightarrow>
     \<exists>cs. tr' = tr @ cs \<and> (\<forall>c\<in>set cs. is_mutation c)
        \<and> (out = None \<longrightarrow> cs = upsert_calls existing src)"
proof (induction src arbitrary: tr)
  case Nil
  then show ?case by (simp add: upsert_calls_def)
next
  case (Cons a src)
  obtain uid res where a: "a = (uid, res)" by (cases a)
  show ?case
  proof (cases "map_of existing uid")
    case None
    show ?thesis
    proof (cases "fails w tr (Insert res)")
      case True
      with Cons.prems a None show ?thesis by auto
    next
      case False
      with Cons.prems a None have "upsert w existing src (tr @ [Insert res]) = (tr', out)"
        by simp
      from Cons.IH[OF this] obtain cs
        where cs: "tr' = (tr @ [Insert res]) @ cs" "\<forall>c\<in>set cs. is_mutation c"
          "out = None \<longrightarrow> cs = upsert_calls existing src"
        by blast
      have "tr' = tr @ (Insert res # cs) \<and> (\<forall>c\<in>set (Insert res # cs). is_mutation c)
         \<and> (out = None \<longrightarrow> Insert res # cs = upsert_calls existing (a # src))"
        using cs a None by (simp add: upsert_calls_def)
      then show ?thesis by blast
    qed
  next
    case (Some ex)
    show ?thesis
    proof (cases "ev_fp ex \<noteq> Some (private_fp res)")
      case differ: True
      show ?thesis
      proof (cases "fails w tr (Patch (gid ex) res)")
        case True
        with Cons.prems a Some differ show ?thesis by auto
      next
        case False
        with Cons.prems a Some differ
        have "upsert w existing src (tr @ [Patch (gid ex) res]) = (tr', out)"
          by simp
        from Cons.IH[OF this] obtain cs
          where cs: "tr' = (tr @ [Patch (gid ex) res]) @ cs" "\<forall>c\<in>set cs. is_mutation c"
            "out = None \<longrightarrow> cs = upsert_calls existing src"
          by blast
        have "tr' = tr @ (Patch (gid ex) res # cs)
           \<and> (\<forall>c\<in>set (Patch (gid ex) res # cs). is_mutation c)
           \<and> (out = None \<longrightarrow> Patch (gid ex) res # cs = upsert_calls existing (a # src))"
          using cs a Some differ by (simp add: upsert_calls_def)
        then show ?thesis by blast
      qed
    next
      case False
      with Cons.prems a Some have "upsert w existing src tr = (tr', out)"
        by simp
      from Cons.IH[OF this] obtain cs
        where cs: "tr' = tr @ cs" "\<forall>c\<in>set cs. is_mutation c"
          "out = None \<longrightarrow> cs = upsert_calls existing src"
        by blast
      then show ?thesis using a Some False by (auto simp: upsert_calls_def)
    qed
  qed
qed

lemma delete_trace:
  "delete_disappeared w src existing tr = (tr', out) \<Longrightarrow>
     \<exists>cs. tr' = tr @ cs \<and> (\<forall>c\<in>set cs. is_mutation c)
        \<and> (out = None \<longrightarrow> cs = delete_calls src existing)"
proof (induction existing arbitrary: tr)
  case Nil
  then show ?case by (simp add: delete_calls_def)
next
  case (Cons a existing)
  obtain uid ex where a: "a = (uid, ex)" by (cases a)
  show ?case
  proof (cases "map_of src uid = None")
    case gone: True
    show ?thesis
    proof (cases "fails w tr (Delete (gid ex))")
      case True
      with Cons.prems a gone show ?thesis by auto
    next
      case False
      with Cons.prems a gone
      have "delete_disappeared w src existing (tr @ [Delete (gid ex)]) = (tr', out)"
        by simp
      from Cons.IH[OF this] obtain cs
        where cs: "tr' = (tr @ [Delete (gid ex)]) @ cs" "\<forall>c\<in>set cs. is_mutation c"
          "out = None \<longrightarrow> cs = delete_calls src existing"
        by blast
      have "tr' = tr @ (Delete (gid ex) # cs) \<and> (\<forall>c\<in>set (Delete (gid ex) # cs). is_mutation c)
         \<and> (out = None \<longrightarrow> Delete (gid ex) # cs = delete_calls src (a # existing))"
        using cs a gone by (simp add: delete_calls_def)
      then show ?thesis by blast
    qed
  next
    case False
    with Cons.prems a have "delete_disappeared w src existing tr = (tr', out)"
      by simp
    from Cons.IH[OF this] obtain cs
      where cs: "tr' = tr @ cs" "\<forall>c\<in>set cs. is_mutation c"
        "out = None \<longrightarrow> cs = delete_calls src existing"
      by blast
    then show ?thesis using a False by (auto simp: delete_calls_def)
  qed
qed

lemma filter_upsert_calls:
  assumes "distinct (map fst src)" "\<forall>(u, r)\<in>set src. private_outlook_uid r = u"
  shows "filter (touches existing uid) (upsert_calls existing src)
     = (case map_of src uid of
          None \<Rightarrow> []
        | Some res \<Rightarrow>
            (case map_of existing uid of
               Some ex \<Rightarrow> if ev_fp ex = Some (private_fp res) then [] else [Patch (gid ex) res]
             | None \<Rightarrow> [Insert res]))"
  using assms
proof (induction src)
  case Nil
  then show ?case by (simp add: upsert_calls_def)
next
  case (Cons a src)
  obtain u r where a: "a = (u, r)" by (cases a)
  from Cons.prems a have d: "distinct (map fst src)" and nu: "u \<notin> fst ` set src"
    and p: "\<forall>(u, r)\<in>set src. private_outlook_uid r = u" and pr: "private_outlook_uid r = u"
    by auto
  have step: "upsert_calls existing (a # src)
      = (case map_of existing u of
          Some ex \<Rightarrow> if ev_fp ex \<noteq> Some (private_fp r) then [Patch (gid ex) r] else []
        | None \<Rightarrow> [Insert r]) @ upsert_calls existing src"
    by (simp add: upsert_calls_def a)
  show ?case
  proof (cases "uid = u")
    case True
    with nu have "map_of src uid = None"
      by (simp add: map_of_eq_None_iff)
    with Cons.IH[OF d p] have "filter (touches existing uid) (upsert_calls existing src) = []"
      by simp
    with True pr a show ?thesis
      unfolding step by (auto split: option.splits)
  next
    case False
    with pr have "filter (touches existing uid) (case map_of existing u of
          Some ex \<Rightarrow> if ev_fp ex \<noteq> Some (private_fp r) then [Patch (gid ex) r] else []
        | None \<Rightarrow> [Insert r]) = []"
      by (auto split: option.splits)
    with Cons.IH[OF d p] False a show ?thesis
      unfolding step by simp
  qed
qed

lemma filter_delete_calls_aux:
  assumes "distinct (map fst existing)" "inj_on (gid \<circ> snd) (set existing)"
    and "set es \<subseteq> set existing" "distinct (map fst es)"
  shows "filter (touches existing uid) (delete_calls src es)
     = (case map_of es uid of
          Some ex \<Rightarrow> if map_of src uid = None then [Delete (gid ex)] else []
        | None \<Rightarrow> [])"
  using assms(3,4)
proof (induction es)
  case Nil
  then show ?case by (simp add: delete_calls_def)
next
  case (Cons a es)
  obtain u ex where a: "a = (u, ex)" by (cases a)
  from Cons.prems a have sub: "set es \<subseteq> set existing" and d: "distinct (map fst es)"
    and nu: "u \<notin> fst ` set es" and m: "(u, ex) \<in> set existing"
    by auto
  from m assms(1) have mo: "map_of existing u = Some ex" by simp
  have step: "delete_calls src (a # es)
      = (if map_of src u = None then [Delete (gid ex)] else []) @ delete_calls src es"
    by (simp add: delete_calls_def a)
  show ?case
  proof (cases "uid = u")
    case True
    with nu have "map_of es uid = None"
      by (simp add: map_of_eq_None_iff)
    with Cons.IH[OF sub d] have "filter (touches existing uid) (delete_calls src es) = []"
      by simp
    with True mo a show ?thesis
      unfolding step by simp
  next
    case False
    have "\<not> touches existing uid (Delete (gid ex))"
    proof
      assume "touches existing uid (Delete (gid ex))"
      then obtain ex' where e: "map_of existing uid = Some ex'" "gid ex' = gid ex"
        by (auto split: option.splits)
      then have "(uid, ex') \<in> set existing" by (auto dest: map_of_SomeD)
      with m e have "(uid, ex') = (u, ex)"
        using inj_onD[OF assms(2), of "(uid, ex')" "(u, ex)"] by simp
      with False show False by simp
    qed
    with Cons.IH[OF sub d] False a show ?thesis
      unfolding step by simp
  qed
qed

lemma filter_delete_calls:
  assumes "distinct (map fst existing)" "inj_on (gid \<circ> snd) (set existing)"
  shows "filter (touches existing uid) (delete_calls src existing)
     = (case map_of existing uid of
          Some ex \<Rightarrow> if map_of src uid = None then [Delete (gid ex)] else []
        | None \<Rightarrow> [])"
  using filter_delete_calls_aux[OF assms subset_refl assms(1)] .

lemma add_items_props:
  "distinct (map fst items) \<Longrightarrow> \<forall>(u, e)\<in>set items. ev_outlook_uid e = Some u \<and> e \<in> S \<Longrightarrow>
   set page \<subseteq> S \<Longrightarrow>
   distinct (map fst (add_items items page))
   \<and> (\<forall>(u, e)\<in>set (add_items items page). ev_outlook_uid e = Some u \<and> e \<in> S)"
proof (induction page arbitrary: items)
  case Nil
  then show ?case by (simp add: add_items_def)
next
  case (Cons ev page)
  let ?items = "if truthy (ev_outlook_uid ev) then AList.update (the (ev_outlook_uid ev)) ev items else items"
  have e: "add_items items (ev # page) = add_items ?items page"
    by (simp add: add_items_def)
  have d: "distinct (map fst ?items)"
    using Cons.prems(1) by (simp add: distinct_update)
  have p: "\<forall>(u, e)\<in>set ?items. ev_outlook_uid e = Some u \<and> e \<in> S"
  proof (cases "truthy (ev_outlook_uid ev)")
    case True
    then obtain u where u: "ev_outlook_uid ev = Some u" by (cases "ev_outlook_uid ev") auto
    have "set (AList.update u ev items) \<subseteq> insert (u, ev) (set items)"
      by (induction items) auto
    with u True Cons.prems(2,3) show ?thesis by auto
  next
    case False
    with Cons.prems(2) show ?thesis by simp
  qed
  from Cons.prems(3) have "set page \<subseteq> S" by simp
  from Cons.IH[OF d p this] e show ?case by simp
qed

lemma list_pages_props:
  "list_pages w ps n items tr = (tr', Inr existing) \<Longrightarrow>
   distinct (map fst items) \<Longrightarrow> \<forall>(u, e)\<in>set items. ev_outlook_uid e = Some u \<and> e \<in> S \<Longrightarrow>
   set (concat ps) \<subseteq> S \<Longrightarrow>
   distinct (map fst existing) \<and> (\<forall>(u, e)\<in>set existing. ev_outlook_uid e = Some u \<and> e \<in> S)"
proof (induction w ps n items tr rule: list_pages.induct)
  case (1 w n items tr)
  then show ?case by (auto split: if_splits)
next
  case (2 w p n items tr)
  from "2.prems"(1) have e: "existing = add_items items p" by (auto split: if_splits)
  from "2.prems"(4) have "set p \<subseteq> S" by simp
  from add_items_props[OF "2.prems"(2,3) this] e show ?case by simp
next
  case (3 w p q ps n items tr)
  from "3.prems"(1) have f: "\<not> fails w tr (ListEvents n)"
    and r: "list_pages w (q # ps) (Suc n) (add_items items p) (tr @ [ListEvents n]) = (tr', Inr existing)"
    by (auto split: if_splits)
  from "3.prems"(4) have sp: "set p \<subseteq> S" and sq: "set (concat (q # ps)) \<subseteq> S" by auto
  note a = add_items_props[OF "3.prems"(2,3) sp]
  from "3.IH"[OF f r] a sq show ?case by blast
qed

lemma gcal_list_existing_props:
  assumes "gcal_list_existing w tr = (tr', Inr existing)"
  shows "distinct (map fst existing)
     \<and> (\<forall>(u, e)\<in>set existing. ev_outlook_uid e = Some u \<and> e \<in> set (concat (pages w)))"
  using list_pages_props[of w "pages w" 0 "[]" tr tr' existing "set (concat (pages w))"] assms
  by (simp add: gcal_list_existing_def)

lemma existing_gid_inj:
  assumes "gcal_list_existing w tr = (tr', Inr existing)" "inj_on gid (set (concat (pages w)))"
  shows "inj_on (gid \<circ> snd) (set existing)"
proof (rule inj_onI)
  fix x y assume x: "x \<in> set existing" and y: "y \<in> set existing" and g: "(gid \<circ> snd) x = (gid \<circ> snd) y"
  from gcal_list_existing_props[OF assms(1)]
  have props: "\<And>u e. (u, e) \<in> set existing \<Longrightarrow>
      ev_outlook_uid e = Some u \<and> e \<in> set (concat (pages w))"
    by fastforce
  from props[of "fst x" "snd x"] x
  have px: "ev_outlook_uid (snd x) = Some (fst x)" "snd x \<in> set (concat (pages w))"
    by simp_all
  from props[of "fst y" "snd y"] y
  have py: "ev_outlook_uid (snd y) = Some (fst y)" "snd y \<in> set (concat (pages w))"
    by simp_all
  from g have "gid (snd x) = gid (snd y)" by simp
  from inj_onD[OF assms(2) this px(2) py(2)] have "snd x = snd y" .
  with px(1) py(1) have "fst x = fst y" by simp
  with \<open>snd x = snd y\<close> show "x = y" by (simp add: prod_eq_iff)
qed
section \<open>The reconciliation of a run\<close>

lemma reconcile_None:
  assumes "reconcile cfg w cont tr = (tr', None)"
  shows "\<exists>evs now cutoff src tr1 existing tr2.
     from_ical w cont = Inr evs \<and> fromutc (TZ cfg) (now_utc w) = Inr now
     \<and> add_timedelta now (- (PAST_DAYS cfg * US_PER_DAY)) = Inr cutoff
     \<and> build_src cfg cutoff evs [] = Inr src
     \<and> gcal_list_existing w tr = (tr1, Inr existing)
     \<and> upsert w existing src tr1 = (tr2, None)
     \<and> delete_disappeared w src existing tr2 = (tr', None)"
  using assms
  by (auto simp: reconcile_def split: sum.splits prod.splits option.splits)

lemma reconcile_trace:
  assumes "reconcile cfg w cont tr = (tr', out)"
  shows "\<exists>cs. tr' = tr @ cs \<and> (\<forall>c\<in>set cs. is_store_call c)"
proof -
  have m: "is_mutation c \<Longrightarrow> is_store_call c" for c by (cases c) auto
  have l: "(\<exists>k. c = ListEvents k) \<Longrightarrow> is_store_call c" for c by auto
  show ?thesis
  proof (cases "from_ical w cont")
    case (Inl e)
    with assms show ?thesis by (simp add: reconcile_def)
  next
    case evs: (Inr evs)
    show ?thesis
    proof (cases "fromutc (TZ cfg) (now_utc w)")
      case (Inl e)
      with assms evs show ?thesis by (simp add: reconcile_def)
    next
      case now: (Inr now)
      show ?thesis
      proof (cases "add_timedelta now (- (PAST_DAYS cfg * US_PER_DAY))")
        case (Inl e)
        with assms evs now show ?thesis by (simp add: reconcile_def)
      next
        case cutoff: (Inr cutoff)
        show ?thesis
        proof (cases "build_src cfg cutoff evs []")
          case (Inl e)
          with assms evs now cutoff show ?thesis by (simp add: reconcile_def)
        next
          case src: (Inr src)
          obtain tr1 lres where lp: "gcal_list_existing w tr = (tr1, lres)"
            by (cases "gcal_list_existing w tr")
          from list_pages_trace[of w "pages w" 0 "[]" tr tr1 lres] lp obtain cs1
            where cs1: "tr1 = tr @ cs1" "\<forall>c\<in>set cs1. \<exists>k. c = ListEvents k"
            by (auto simp: gcal_list_existing_def)
          show ?thesis
          proof (cases lres)
            case (Inl e)
            with assms evs now cutoff src lp have "tr' = tr1"
              by (simp add: reconcile_def)
            with cs1 l show ?thesis by auto
          next
            case ex: (Inr existing)
            obtain tr2 o2 where up: "upsert w existing src tr1 = (tr2, o2)"
              by (cases "upsert w existing src tr1")
            from upsert_trace[OF up] obtain cs2
              where cs2: "tr2 = tr1 @ cs2" "\<forall>c\<in>set cs2. is_mutation c"
              by blast
            show ?thesis
            proof (cases o2)
              case (Some e)
              with assms evs now cutoff src lp ex up have "tr' = tr2"
                by (simp add: reconcile_def)
              with cs1 cs2 l m
              have "tr' = tr @ (cs1 @ cs2) \<and> (\<forall>c\<in>set (cs1 @ cs2). is_store_call c)"
                by auto
              then show ?thesis by blast
            next
              case None
              with assms evs now cutoff src lp ex up
              have "delete_disappeared w src existing tr2 = (tr', out)"
                by (simp add: reconcile_def)
              from delete_trace[OF this] obtain cs3
                where cs3: "tr' = tr2 @ cs3" "\<forall>c\<in>set cs3. is_mutation c"
                by blast
              with cs1 cs2 l m
              have "tr' = tr @ (cs1 @ cs2 @ cs3)
                  \<and> (\<forall>c\<in>set (cs1 @ cs2 @ cs3). is_store_call c)"
                by auto
              then show ?thesis by blast
            qed
          qed
        qed
      qed
    qed
  qed
qed

lemma build_src_uids:
  assumes "build_src cfg cutoff evs [] = Inr src"
  shows "\<forall>(u, r)\<in>set src. private_outlook_uid r = u"
proof -
  have "private_outlook_uid r = u" if "(u, r) \<in> set src" for u r
    using build_src_entries[OF assms that] by (auto dest: to_gcal_resource_uid)
  then show ?thesis by auto
qed

lemma sample_reconcile:
  "run_of (reconcile sample_cfg sample_world ''feed-2'' [])
     = ([''list'', ''list'', ''patch g-weekly weekly-1'', ''insert holiday-1'',
         ''delete g-gone''], None)"
  by code_simp

lemma sample_listing:
  "map call_label (fst (gcal_list_existing sample_world [])) = [''list'', ''list'']"
  by code_simp

lemma sample_gids: "inj_on gid (set (concat (pages sample_world)))"
  by (simp add: sample_world_def)

text \<open>
  C2. In a run that reaches the end of the upsert and delete loops without an exception,
  on a calendar whose event ids are distinct, the calls after the listing are inserts,
  patches and deletes only, and for every identity: when the snapshot holds a resource
  under it, the calls that concern the identity are none if the existing event has the
  fingerprint of the resource, one patch of the existing event with the resource if the
  fingerprints differ, and one insert of the resource if no event exists under it; when
  the snapshot does not hold it and an event exists under it, the one call is the delete
  of that event. Every kept event has its identity in the snapshot, with its own
  resource unless another kept event has the same identity and another resource.
\<close>

theorem upsert_delete_decisions:
  assumes "reconcile cfg w cont tr = (tr', None)"
    and "inj_on gid (set (concat (pages w)))"
  shows "\<exists>evs now cutoff src tr1 existing cs.
      from_ical w cont = Inr evs \<and> fromutc (TZ cfg) (now_utc w) = Inr now
      \<and> add_timedelta now (- (PAST_DAYS cfg * US_PER_DAY)) = Inr cutoff
      \<and> build_src cfg cutoff evs [] = Inr src
      \<and> gcal_list_existing w tr = (tr1, Inr existing)
      \<and> tr' = tr1 @ cs \<and> (\<forall>c\<in>set cs. is_mutation c)
      \<and> (\<forall>uid res. map_of src uid = Some res \<longrightarrow>
            filter (touches existing uid) cs
              = (case map_of existing uid of
                   Some ex \<Rightarrow>
                     if ev_fp ex = Some (private_fp res) then [] else [Patch (gid ex) res]
                 | None \<Rightarrow> [Insert res]))
      \<and> (\<forall>uid ex. map_of existing uid = Some ex \<and> map_of src uid = None \<longrightarrow>
            filter (touches existing uid) cs = [Delete (gid ex)])
      \<and> (\<forall>ev\<in>set evs. kept cfg cutoff ev \<longrightarrow>
            (\<exists>uid res res'. to_gcal_resource cfg ev = Inr (uid, res)
               \<and> map_of src uid = Some res'
               \<and> ((\<forall>e\<in>set evs. kept cfg cutoff e \<longrightarrow>
                      (\<forall>r. to_gcal_resource cfg e = Inr (uid, r) \<longrightarrow> r = res))
                    \<longrightarrow> res' = res)))"
proof -
  from reconcile_None[OF assms(1)] obtain evs now cutoff src tr1 existing tr2 where
    evs: "from_ical w cont = Inr evs" and now: "fromutc (TZ cfg) (now_utc w) = Inr now"
    and cutoff: "add_timedelta now (- (PAST_DAYS cfg * US_PER_DAY)) = Inr cutoff"
    and src: "build_src cfg cutoff evs [] = Inr src"
    and ex: "gcal_list_existing w tr = (tr1, Inr existing)"
    and up: "upsert w existing src tr1 = (tr2, None)"
    and del: "delete_disappeared w src existing tr2 = (tr', None)"
    by blast
  define cs where "cs = upsert_calls existing src @ delete_calls src existing"
  from upsert_trace[OF up] have tr2: "tr2 = tr1 @ upsert_calls existing src"
    and mu: "\<forall>c\<in>set (upsert_calls existing src). is_mutation c"
    by auto
  from delete_trace[OF del] have tr': "tr' = tr2 @ delete_calls src existing"
    and md: "\<forall>c\<in>set (delete_calls src existing). is_mutation c"
    by auto
  have t: "tr' = tr1 @ cs"
    using tr2 tr' by (simp add: cs_def)
  have m: "\<forall>c\<in>set cs. is_mutation c"
    using mu md by (auto simp: cs_def)
  have ds: "distinct (map fst src)"
    using build_src_distinct[OF src] by simp
  note us = build_src_uids[OF src]
  from gcal_list_existing_props[OF ex] have de: "distinct (map fst existing)"
    by simp
  note ie = existing_gid_inj[OF ex assms(2)]
  have f: "filter (touches existing uid) cs
      = (case map_of src uid of
           None \<Rightarrow> []
         | Some res \<Rightarrow>
             (case map_of existing uid of
                Some ex \<Rightarrow>
                  if ev_fp ex = Some (private_fp res) then [] else [Patch (gid ex) res]
              | None \<Rightarrow> [Insert res]))
        @ (case map_of existing uid of
             Some ex \<Rightarrow> if map_of src uid = None then [Delete (gid ex)] else []
           | None \<Rightarrow> [])" for uid
    unfolding cs_def filter_append
    by (simp only: filter_upsert_calls[OF ds us] filter_delete_calls[OF de ie])
  have 1: "filter (touches existing uid) cs
      = (case map_of existing uid of
           Some ex \<Rightarrow> if ev_fp ex = Some (private_fp res) then [] else [Patch (gid ex) res]
         | None \<Rightarrow> [Insert res])" if "map_of src uid = Some res" for uid res
    using that by (simp add: f split: option.splits)
  have 2: "filter (touches existing uid) cs = [Delete (gid ex)]"
    if "map_of existing uid = Some ex \<and> map_of src uid = None" for uid ex
    using that by (simp add: f)
  have 3: "\<exists>uid res res'. to_gcal_resource cfg ev = Inr (uid, res)
               \<and> map_of src uid = Some res'
               \<and> ((\<forall>e\<in>set evs. kept cfg cutoff e \<longrightarrow>
                      (\<forall>r. to_gcal_resource cfg e = Inr (uid, r) \<longrightarrow> r = res))
                    \<longrightarrow> res' = res)"
    if e: "ev \<in> set evs" and k: "kept cfg cutoff ev" for ev
  proof -
    from build_src_kept[OF src e k] obtain uid res
      where g: "to_gcal_resource cfg ev = Inr (uid, res)" and u: "uid \<in> fst ` set src"
      by blast
    from u obtain res' where r': "map_of src uid = Some res'"
      by (cases "map_of src uid") (auto simp: map_of_eq_None_iff)
    then have "(uid, res') \<in> set src"
      by (rule map_of_SomeD)
    from build_src_entries[OF src this] obtain e' where
      e': "e' \<in> set evs" "kept cfg cutoff e'" "to_gcal_resource cfg e' = Inr (uid, res')"
      by auto
    then have "(\<forall>e\<in>set evs. kept cfg cutoff e \<longrightarrow>
                 (\<forall>r. to_gcal_resource cfg e = Inr (uid, r) \<longrightarrow> r = res)) \<longrightarrow> res' = res"
      by blast
    with g r' show ?thesis by blast
  qed
  have c1: "\<forall>uid res. map_of src uid = Some res \<longrightarrow>
            filter (touches existing uid) cs
              = (case map_of existing uid of
                   Some ex \<Rightarrow>
                     if ev_fp ex = Some (private_fp res) then [] else [Patch (gid ex) res]
                 | None \<Rightarrow> [Insert res])"
    using 1 by blast
  have c2: "\<forall>uid ex. map_of existing uid = Some ex \<and> map_of src uid = None \<longrightarrow>
            filter (touches existing uid) cs = [Delete (gid ex)]"
    using 2 by blast
  have c3: "\<forall>ev\<in>set evs. kept cfg cutoff ev \<longrightarrow>
            (\<exists>uid res res'. to_gcal_resource cfg ev = Inr (uid, res)
               \<and> map_of src uid = Some res'
               \<and> ((\<forall>e\<in>set evs. kept cfg cutoff e \<longrightarrow>
                      (\<forall>r. to_gcal_resource cfg e = Inr (uid, r) \<longrightarrow> r = res))
                    \<longrightarrow> res' = res))"
    using 3 by blast
  show ?thesis
    apply (rule exI[of _ evs])
    apply (rule exI[of _ now])
    apply (rule exI[of _ cutoff])
    apply (rule exI[of _ src])
    apply (rule exI[of _ tr1])
    apply (rule exI[of _ existing])
    apply (rule exI[of _ cs])
    apply (intro conjI)
             apply (rule evs)
            apply (rule now)
           apply (rule cutoff)
          apply (rule src)
         apply (rule ex)
        apply (rule t)
       apply (rule m)
      apply (rule c1)
     apply (rule c2)
    apply (rule c3)
    done
qed

theorem upsert_delete_decisions_witness:
  "run_of (reconcile sample_cfg sample_world ''feed-2'' [])
     = ([''list'', ''list'', ''patch g-weekly weekly-1'', ''insert holiday-1'',
         ''delete g-gone''], None)
   \<and> inj_on gid (set (concat (pages sample_world)))
   \<and> (\<exists>tr1 cs. fst (reconcile sample_cfg sample_world ''feed-2'' []) = tr1 @ cs
         \<and> map call_label tr1 = [''list'', ''list''] \<and> list_all is_mutation cs)"
proof -
  have "snd (reconcile sample_cfg sample_world ''feed-2'' []) = None"
    using sample_reconcile by (simp add: run_of_def)
  then have r: "reconcile sample_cfg sample_world ''feed-2'' []
      = (fst (reconcile sample_cfg sample_world ''feed-2'' []), None)"
    by (simp add: prod_eq_iff)
  from upsert_delete_decisions[OF r sample_gids] obtain tr1 existing cs where
    g: "gcal_list_existing sample_world [] = (tr1, Inr existing)"
    and t: "fst (reconcile sample_cfg sample_world ''feed-2'' []) = tr1 @ cs"
    and m: "\<forall>c\<in>set cs. is_mutation c"
    by (elim exE conjE)
  have b: "map call_label tr1 = [''list'', ''list'']"
    using sample_listing unfolding g fst_conv .
  have c: "list_all is_mutation cs"
    using m by (simp add: list_all_iff)
  from t b c have "\<exists>tr1 cs. fst (reconcile sample_cfg sample_world ''feed-2'' []) = tr1 @ cs
         \<and> map call_label tr1 = [''list'', ''list''] \<and> list_all is_mutation cs"
    by (intro exI conjI)
  with sample_reconcile sample_gids show ?thesis
    by (intro conjI)
qed

text \<open>
  C4. A run whose request is answered 304, or is answered without an error status by
  content whose hash is the persisted one, makes no call at all and ends without an
  exception. A run that detects a change (the answer is neither 304 nor an error status,
  and the hash of its content is not the persisted one) makes the write of the new state
  record (the response's ETag and Last-Modified and the hash of its content) as its first
  call; every later call is a call on the calendar, and there is one only if that write
  did not raise. In every run, the first call made, if any, is that write of a detected
  change. So every insert, patch and delete comes after the state has been persisted.
\<close>

theorem unchanged_exit_and_state_first:
  "(\<forall>r. truthy (ICS_URL cfg) \<and> truthy (TARGET_CALENDAR_ID cfg) \<and> gcal_service w = None
        \<and> http_get w (request_headers (load_state w)) = Inr r
        \<and> (status_code r = 304
            \<or> (\<not> (400 \<le> status_code r \<and> status_code r < 600)
                \<and> hash (load_state w) = Some (md5_hexdigest cfg (content r))))
      \<longrightarrow> main cfg w = ([], None))
   \<and> (\<forall>r. truthy (ICS_URL cfg) \<and> truthy (TARGET_CALENDAR_ID cfg) \<and> gcal_service w = None
        \<and> http_get w (request_headers (load_state w)) = Inr r
        \<and> status_code r \<noteq> 304 \<and> \<not> (400 \<le> status_code r \<and> status_code r < 600)
        \<and> hash (load_state w) \<noteq> Some (md5_hexdigest cfg (content r))
      \<longrightarrow> (\<exists>rest. fst (main cfg w)
                 = SaveState \<lparr>etag = header_ETag r, last_modified = header_Last_Modified r,
                              hash = Some (md5_hexdigest cfg (content r))\<rparr> # rest
             \<and> (\<forall>c\<in>set rest. is_store_call c)
             \<and> (rest \<noteq> [] \<longrightarrow>
                   \<not> fails w [] (SaveState \<lparr>etag = header_ETag r,
                                            last_modified = header_Last_Modified r,
                                            hash = Some (md5_hexdigest cfg (content r))\<rparr>))
             \<and> (\<forall>i < length (fst (main cfg w)). is_mutation (fst (main cfg w) ! i) \<longrightarrow> 0 < i)))
   \<and> (fst (main cfg w) = []
       \<or> (\<exists>r rest. http_get w (request_headers (load_state w)) = Inr r
             \<and> hash (load_state w) \<noteq> Some (md5_hexdigest cfg (content r))
             \<and> fst (main cfg w)
                 = SaveState \<lparr>etag = header_ETag r, last_modified = header_Last_Modified r,
                              hash = Some (md5_hexdigest cfg (content r))\<rparr> # rest
             \<and> (\<forall>c\<in>set rest. is_store_call c)
             \<and> (rest \<noteq> [] \<longrightarrow>
                   \<not> fails w [] (SaveState \<lparr>etag = header_ETag r,
                                            last_modified = header_Last_Modified r,
                                            hash = Some (md5_hexdigest cfg (content r))\<rparr>))))"
proof -
  have 1: "main cfg w = ([], None)"
    if "truthy (ICS_URL cfg) \<and> truthy (TARGET_CALENDAR_ID cfg) \<and> gcal_service w = None
        \<and> http_get w (request_headers (load_state w)) = Inr r
        \<and> (status_code r = 304
            \<or> (\<not> (400 \<le> status_code r \<and> status_code r < 600)
                \<and> hash (load_state w) = Some (md5_hexdigest cfg (content r))))" for r
    using that by (auto simp: main_def Let_def)
  have 2: "\<exists>rest. fst (main cfg w)
                 = SaveState \<lparr>etag = header_ETag r, last_modified = header_Last_Modified r,
                              hash = Some (md5_hexdigest cfg (content r))\<rparr> # rest
             \<and> (\<forall>c\<in>set rest. is_store_call c)
             \<and> (rest \<noteq> [] \<longrightarrow>
                   \<not> fails w [] (SaveState \<lparr>etag = header_ETag r,
                                            last_modified = header_Last_Modified r,
                                            hash = Some (md5_hexdigest cfg (content r))\<rparr>))
             \<and> (\<forall>i < length (fst (main cfg w)). is_mutation (fst (main cfg w) ! i) \<longrightarrow> 0 < i)"
    if h: "truthy (ICS_URL cfg) \<and> truthy (TARGET_CALENDAR_ID cfg) \<and> gcal_service w = None
        \<and> http_get w (request_headers (load_state w)) = Inr r
        \<and> status_code r \<noteq> 304 \<and> \<not> (400 \<le> status_code r \<and> status_code r < 600)
        \<and> hash (load_state w) \<noteq> Some (md5_hexdigest cfg (content r))" for r
  proof -
    define st where "st = \<lparr>etag = header_ETag r, last_modified = header_Last_Modified r,
                              hash = Some (md5_hexdigest cfg (content r))\<rparr>"
    from h have m: "main cfg w = (if fails w [] (SaveState st) then ([SaveState st], Some OSError)
                            else reconcile cfg w (content r) [SaveState st])"
      by (auto simp: main_def Let_def st_def)
    have "\<exists>rest. fst (main cfg w) = SaveState st # rest \<and> (\<forall>c\<in>set rest. is_store_call c)
        \<and> (rest \<noteq> [] \<longrightarrow> \<not> fails w [] (SaveState st))"
    proof (cases "fails w [] (SaveState st)")
      case True
      with m have "fst (main cfg w) = SaveState st # []" by simp
      then show ?thesis by simp
    next
      case nf: False
      obtain tr' out where rc: "reconcile cfg w (content r) [SaveState st] = (tr', out)"
        by (cases "reconcile cfg w (content r) [SaveState st]")
      from reconcile_trace[OF rc] obtain cs
        where cs: "tr' = [SaveState st] @ cs" "\<forall>c\<in>set cs. is_store_call c"
        by blast
      with m nf rc have "fst (main cfg w) = SaveState st # cs" by simp
      with cs(2) nf show ?thesis by simp
    qed
    then obtain rest where f: "fst (main cfg w) = SaveState st # rest"
      and s: "\<forall>c\<in>set rest. is_store_call c"
      and n: "rest \<noteq> [] \<longrightarrow> \<not> fails w [] (SaveState st)"
      by blast
    have i: "\<forall>i < length (fst (main cfg w)). is_mutation (fst (main cfg w) ! i) \<longrightarrow> 0 < i"
    proof (intro allI impI)
      fix i assume "i < length (fst (main cfg w))" "is_mutation (fst (main cfg w) ! i)"
      with f show "0 < i" by (cases i) auto
    qed
    from f s n i show ?thesis unfolding st_def by blast
  qed
  have 3: "fst (main cfg w) = []
       \<or> (\<exists>r rest. http_get w (request_headers (load_state w)) = Inr r
             \<and> hash (load_state w) \<noteq> Some (md5_hexdigest cfg (content r))
             \<and> fst (main cfg w)
                 = SaveState \<lparr>etag = header_ETag r, last_modified = header_Last_Modified r,
                              hash = Some (md5_hexdigest cfg (content r))\<rparr> # rest
             \<and> (\<forall>c\<in>set rest. is_store_call c)
             \<and> (rest \<noteq> [] \<longrightarrow>
                   \<not> fails w [] (SaveState \<lparr>etag = header_ETag r,
                                            last_modified = header_Last_Modified r,
                                            hash = Some (md5_hexdigest cfg (content r))\<rparr>)))"
  proof (cases "fst (main cfg w) = []")
    case True
    then show ?thesis by simp
  next
    case False
    then obtain r where r: "http_get w (request_headers (load_state w)) = Inr r"
      by (cases "http_get w (request_headers (load_state w))")
         (auto simp: main_def Let_def split: if_splits)
    from False r have c: "truthy (ICS_URL cfg) \<and> truthy (TARGET_CALENDAR_ID cfg)
        \<and> gcal_service w = None
        \<and> http_get w (request_headers (load_state w)) = Inr r
        \<and> status_code r \<noteq> 304 \<and> \<not> (400 \<le> status_code r \<and> status_code r < 600)
        \<and> hash (load_state w) \<noteq> Some (md5_hexdigest cfg (content r))"
      by (auto simp: main_def Let_def split: if_splits)
    from 2[OF c] r c show ?thesis by blast
  qed
  from 1 2 3 show ?thesis
    by (intro conjI allI impI)
qed

lemma sample_main:
  "run_of (main sample_cfg sample_world)
     = ([''save'', ''list'', ''list'', ''patch g-weekly weekly-1'', ''insert holiday-1'',
         ''delete g-gone''], None)"
  by code_simp

theorem unchanged_exit_and_state_first_witness:
  "main sample_cfg not_modified_world = ([], None)
   \<and> main sample_cfg same_hash_world = ([], None)
   \<and> (\<exists>rest. fst (main sample_cfg sample_world)
         = SaveState \<lparr>etag = Some ''v2'', last_modified = None, hash = Some ''feed-2''\<rparr> # rest
       \<and> (\<forall>c\<in>set rest. is_store_call c))
   \<and> run_of (main sample_cfg sample_world)
       = ([''save'', ''list'', ''list'', ''patch g-weekly weekly-1'', ''insert holiday-1'',
           ''delete g-gone''], None)"
proof -
  let ?r304 = "\<lparr>status_code = 304, header_ETag = None, header_Last_Modified = None,
                 content = []\<rparr>"
  let ?r200 = "\<lparr>status_code = 200, header_ETag = Some ''v2'', header_Last_Modified = None,
                 content = ''feed-2''\<rparr>"
  have a: "truthy (ICS_URL sample_cfg) \<and> truthy (TARGET_CALENDAR_ID sample_cfg)
        \<and> gcal_service not_modified_world = None
        \<and> http_get not_modified_world (request_headers (load_state not_modified_world))
            = Inr ?r304
        \<and> (status_code ?r304 = 304
            \<or> (\<not> (400 \<le> status_code ?r304 \<and> status_code ?r304 < 600)
                \<and> hash (load_state not_modified_world)
                    = Some (md5_hexdigest sample_cfg (content ?r304))))"
    by (simp add: sample_cfg_def not_modified_world_def sample_world_def)
  have b: "truthy (ICS_URL sample_cfg) \<and> truthy (TARGET_CALENDAR_ID sample_cfg)
        \<and> gcal_service same_hash_world = None
        \<and> http_get same_hash_world (request_headers (load_state same_hash_world)) = Inr ?r200
        \<and> (status_code ?r200 = 304
            \<or> (\<not> (400 \<le> status_code ?r200 \<and> status_code ?r200 < 600)
                \<and> hash (load_state same_hash_world)
                    = Some (md5_hexdigest sample_cfg (content ?r200))))"
    by (simp add: sample_cfg_def same_hash_world_def sample_world_def sample_digest_def)
  have c: "truthy (ICS_URL sample_cfg) \<and> truthy (TARGET_CALENDAR_ID sample_cfg)
        \<and> gcal_service sample_world = None
        \<and> http_get sample_world (request_headers (load_state sample_world)) = Inr ?r200
        \<and> status_code ?r200 \<noteq> 304 \<and> \<not> (400 \<le> status_code ?r200 \<and> status_code ?r200 < 600)
        \<and> hash (load_state sample_world) \<noteq> Some (md5_hexdigest sample_cfg (content ?r200))"
    by (simp add: sample_cfg_def sample_world_def sample_digest_def)
  note t1 = unchanged_exit_and_state_first[of sample_cfg not_modified_world,
      THEN conjunct1, THEN spec, THEN mp, OF a]
  note t2 = unchanged_exit_and_state_first[of sample_cfg same_hash_world,
      THEN conjunct1, THEN spec, THEN mp, OF b]
  note t3 = unchanged_exit_and_state_first[of sample_cfg sample_world,
      THEN conjunct2, THEN conjunct1, THEN spec, THEN mp, OF c]
  from t3 obtain rest where
    f: "fst (main sample_cfg sample_world)
         = SaveState \<lparr>etag = header_ETag ?r200, last_modified = header_Last_Modified ?r200,
                      hash = Some (md5_hexdigest sample_cfg (content ?r200))\<rparr> # rest"
    and s: "\<forall>c\<in>set rest. is_store_call c"
    by (elim exE conjE)
  have e: "\<lparr>etag = header_ETag ?r200, last_modified = header_Last_Modified ?r200,
            hash = Some (md5_hexdigest sample_cfg (content ?r200))\<rparr>
          = \<lparr>etag = Some ''v2'', last_modified = None, hash = Some ''feed-2''\<rparr>"
    by (simp add: sample_cfg_def sample_digest_def)
  have t3': "\<exists>rest. fst (main sample_cfg sample_world)
         = SaveState \<lparr>etag = Some ''v2'', last_modified = None, hash = Some ''feed-2''\<rparr> # rest
       \<and> (\<forall>c\<in>set rest. is_store_call c)"
    apply (rule exI[of _ rest])
    apply (rule conjI)
     apply (rule f[unfolded e])
    apply (rule s)
    done
  from t1 t2 t3' sample_main show ?thesis
    by (intro conjI)
qed

section \<open>Records without a start\<close>

lemma upsert_calls_body:
  "c \<in> set (upsert_calls existing src) \<Longrightarrow>
     \<exists>uid r. (uid, r) \<in> set src \<and> (c = Insert r \<or> (\<exists>i. c = Patch i r))"
  by (auto simp: upsert_calls_def split: option.splits if_splits)

lemma delete_calls_body: "c \<in> set (delete_calls src existing) \<Longrightarrow> \<exists>i. c = Delete i"
  by (auto simp: delete_calls_def split: if_splits)

lemma delete_calls_mem:
  "(uid, ex) \<in> set existing \<Longrightarrow> map_of src uid = None \<Longrightarrow>
     Delete (gid ex) \<in> set (delete_calls src existing)"
  by (force simp: delete_calls_def)

lemma not_kept_no_start: "DTSTART ev = None \<Longrightarrow> \<not> kept cfg cutoff ev"
  by (simp add: kept_def)

lemma sample_nostart:
  "DTSTART nostart_event = None \<and> nostart_event \<in> set sample_feed
   \<and> from_ical sample_world ''feed-2'' = Inr sample_feed"
  by (simp add: nostart_event_def sample_feed_def sample_world_def)

text \<open>
  C10. A record without DTSTART is passed over by the snapshot loop: the loop gives the
  same result, a snapshot or an exception, as on the feed without the record, and the
  record is not kept. In a run that ends without an exception every insert and every
  patch carries the canonical resource of a kept event, which has a DTSTART, and every
  existing event whose identity is the identity of no kept event is deleted; so an
  existing event whose identity only such a record has is deleted.
\<close>

theorem no_start_skipped:
  assumes "DTSTART ev = None"
    and "from_ical w cont = Inr evs" and "ev \<in> set evs"
    and "reconcile cfg w cont tr = (tr', None)"
  shows "build_src cfg c (evs1 @ ev # evs2) src0 = build_src cfg c (evs1 @ evs2) src0
     \<and> \<not> kept cfg c ev
     \<and> (\<exists>now cutoff src tr1 existing cs.
           fromutc (TZ cfg) (now_utc w) = Inr now
           \<and> add_timedelta now (- (PAST_DAYS cfg * US_PER_DAY)) = Inr cutoff
           \<and> build_src cfg cutoff evs [] = Inr src
           \<and> gcal_list_existing w tr = (tr1, Inr existing)
           \<and> tr' = tr1 @ cs
           \<and> (\<forall>x\<in>set cs. \<forall>r. x = Insert r \<or> (\<exists>i. x = Patch i r) \<longrightarrow>
                 (\<exists>e\<in>set evs. e \<noteq> ev \<and> DTSTART e \<noteq> None \<and> kept cfg cutoff e
                    \<and> to_gcal_resource cfg e = Inr (private_outlook_uid r, r)))
           \<and> (\<forall>uid ex. (uid, ex) \<in> set existing
                 \<and> (\<forall>e\<in>set evs. kept cfg cutoff e \<longrightarrow>
                       (\<forall>r. to_gcal_resource cfg e \<noteq> Inr (uid, r)))
                 \<longrightarrow> Delete (gid ex) \<in> set cs))"
proof -
  from reconcile_None[OF assms(4)] assms(2) obtain now cutoff src tr1 existing tr2 where
    now: "fromutc (TZ cfg) (now_utc w) = Inr now"
    and cutoff: "add_timedelta now (- (PAST_DAYS cfg * US_PER_DAY)) = Inr cutoff"
    and src: "build_src cfg cutoff evs [] = Inr src"
    and ex: "gcal_list_existing w tr = (tr1, Inr existing)"
    and up: "upsert w existing src tr1 = (tr2, None)"
    and del: "delete_disappeared w src existing tr2 = (tr', None)"
    by auto
  define cs where "cs = upsert_calls existing src @ delete_calls src existing"
  from upsert_trace[OF up] have tr2: "tr2 = tr1 @ upsert_calls existing src"
    by auto
  from delete_trace[OF del] have tr': "tr' = tr2 @ delete_calls src existing"
    by auto
  have t: "tr' = tr1 @ cs"
    using tr2 tr' by (simp add: cs_def)
  have 1: "\<exists>e\<in>set evs. e \<noteq> ev \<and> DTSTART e \<noteq> None \<and> kept cfg cutoff e
              \<and> to_gcal_resource cfg e = Inr (private_outlook_uid r, r)"
    if x: "x \<in> set cs" and b: "x = Insert r \<or> (\<exists>i. x = Patch i r)" for x r
  proof -
    from x b have "x \<in> set (upsert_calls existing src)"
      by (auto simp: cs_def dest: delete_calls_body)
    from upsert_calls_body[OF this] b obtain uid where "(uid, r) \<in> set src"
      by auto
    from build_src_entries[OF src this] obtain e where
      e: "e \<in> set evs" "kept cfg cutoff e" "to_gcal_resource cfg e = Inr (uid, r)"
      by auto
    from e(3) have u: "private_outlook_uid r = uid"
      by (rule to_gcal_resource_uid)
    from e(2) have s: "DTSTART e \<noteq> None"
      by (auto simp: kept_def split: option.splits)
    with assms(1) have "e \<noteq> ev"
      by auto
    with e u s show ?thesis
      by auto
  qed
  have 2: "Delete (gid ex) \<in> set cs"
    if m: "(uid, ex) \<in> set existing"
      and n: "\<forall>e\<in>set evs. kept cfg cutoff e \<longrightarrow> (\<forall>r. to_gcal_resource cfg e \<noteq> Inr (uid, r))"
    for uid ex
  proof -
    have "map_of src uid = None"
    proof (cases "map_of src uid")
      case None
      then show ?thesis .
    next
      case (Some r)
      then have "(uid, r) \<in> set src"
        by (rule map_of_SomeD)
      from build_src_entries[OF src this] n show ?thesis
        by auto
    qed
    from delete_calls_mem[OF m this] show ?thesis
      by (simp add: cs_def)
  qed
  have c1: "\<forall>x\<in>set cs. \<forall>r. x = Insert r \<or> (\<exists>i. x = Patch i r) \<longrightarrow>
                 (\<exists>e\<in>set evs. e \<noteq> ev \<and> DTSTART e \<noteq> None \<and> kept cfg cutoff e
                    \<and> to_gcal_resource cfg e = Inr (private_outlook_uid r, r))"
    using 1 by blast
  have c2: "\<forall>uid ex. (uid, ex) \<in> set existing
                 \<and> (\<forall>e\<in>set evs. kept cfg cutoff e \<longrightarrow>
                       (\<forall>r. to_gcal_resource cfg e \<noteq> Inr (uid, r)))
                 \<longrightarrow> Delete (gid ex) \<in> set cs"
    using 2 by blast
  have e: "\<exists>now cutoff src tr1 existing cs.
           fromutc (TZ cfg) (now_utc w) = Inr now
           \<and> add_timedelta now (- (PAST_DAYS cfg * US_PER_DAY)) = Inr cutoff
           \<and> build_src cfg cutoff evs [] = Inr src
           \<and> gcal_list_existing w tr = (tr1, Inr existing)
           \<and> tr' = tr1 @ cs
           \<and> (\<forall>x\<in>set cs. \<forall>r. x = Insert r \<or> (\<exists>i. x = Patch i r) \<longrightarrow>
                 (\<exists>e\<in>set evs. e \<noteq> ev \<and> DTSTART e \<noteq> None \<and> kept cfg cutoff e
                    \<and> to_gcal_resource cfg e = Inr (private_outlook_uid r, r)))
           \<and> (\<forall>uid ex. (uid, ex) \<in> set existing
                 \<and> (\<forall>e\<in>set evs. kept cfg cutoff e \<longrightarrow>
                       (\<forall>r. to_gcal_resource cfg e \<noteq> Inr (uid, r)))
                 \<longrightarrow> Delete (gid ex) \<in> set cs)"
    apply (rule exI[of _ now])
    apply (rule exI[of _ cutoff])
    apply (rule exI[of _ src])
    apply (rule exI[of _ tr1])
    apply (rule exI[of _ existing])
    apply (rule exI[of _ cs])
    apply (intro conjI)
          apply (rule now)
         apply (rule cutoff)
        apply (rule src)
       apply (rule ex)
      apply (rule t)
     apply (rule c1)
    apply (rule c2)
    done
  from build_src_skip_no_start[OF assms(1)] not_kept_no_start[OF assms(1)] e show ?thesis
    by (intro conjI)
qed

theorem no_start_skipped_witness:
  "DTSTART nostart_event = None \<and> nostart_event \<in> set sample_feed
   \<and> from_ical sample_world ''feed-2'' = Inr sample_feed
   \<and> run_of (reconcile sample_cfg sample_world ''feed-2'' [])
       = ([''list'', ''list'', ''patch g-weekly weekly-1'', ''insert holiday-1'',
           ''delete g-gone''], None)
   \<and> \<not> kept sample_cfg sample_cutoff nostart_event
   \<and> build_src sample_cfg sample_cutoff ([standup_event] @ nostart_event # [recent_event]) []
       = build_src sample_cfg sample_cutoff ([standup_event] @ [recent_event]) []"
proof -
  have "snd (reconcile sample_cfg sample_world ''feed-2'' []) = None"
    using sample_reconcile by (simp add: run_of_def)
  then have r: "reconcile sample_cfg sample_world ''feed-2'' []
      = (fst (reconcile sample_cfg sample_world ''feed-2'' []), None)"
    by (simp add: prod_eq_iff)
  from sample_nostart have a: "DTSTART nostart_event = None"
    and b: "from_ical sample_world ''feed-2'' = Inr sample_feed"
    and c: "nostart_event \<in> set sample_feed"
    by simp_all
  note t = no_start_skipped[OF a b c r, of sample_cutoff "[standup_event]" "[recent_event]" "[]"]
  show ?thesis
    apply (intro conjI)
         apply (rule a)
        apply (rule c)
       apply (rule b)
      apply (rule sample_reconcile)
     apply (rule t[THEN conjunct2, THEN conjunct1])
    apply (rule t[THEN conjunct1])
    done
qed

section \<open>The calendar conversions\<close>

lemma div_eqI: "0 \<le> r \<Longrightarrow> r < k \<Longrightarrow> x = q * k + r \<Longrightarrow> (x::int) div k = q"
  by simp

lemma mod_eqI: "0 \<le> r \<Longrightarrow> r < k \<Longrightarrow> x = q * k + r \<Longrightarrow> (x::int) mod k = r"
  by simp

lemma days_before_year_decomp:
  assumes "0 \<le> b" "b \<le> 3" "0 \<le> c" "c \<le> 24" "0 \<le> e" "e \<le> 3"
  shows "days_before_year (400 * a + 100 * b + 4 * c + e + 1)
           = 146097 * a + 36524 * b + 1461 * c + 365 * e"
proof -
  let ?y = "400 * a + 100 * b + 4 * c + e"
  have d4: "?y div 4 = 100 * a + 25 * b + c"
    by (rule div_eqI[of e]) (use assms in auto)
  have d100: "?y div 100 = 4 * a + b"
    by (rule div_eqI[of "4 * c + e"]) (use assms in auto)
  have d400: "?y div 400 = a"
    by (rule div_eqI[of "100 * b + 4 * c + e"]) (use assms in auto)
  show ?thesis
    by (simp add: days_before_year_def Let_def d4 d100 d400)
qed

lemma is_leap_decomp:
  assumes "0 \<le> b" "b \<le> 3" "0 \<le> c" "c \<le> 24" "0 \<le> e" "e \<le> 3"
  shows "is_leap (400 * a + 100 * b + 4 * c + e + 1) \<longleftrightarrow> e = 3 \<and> (c \<noteq> 24 \<or> b = 3)"
proof -
  let ?y = "400 * a + 100 * b + 4 * c + e + 1"
  have m4: "?y mod 4 = (if e = 3 then 0 else e + 1)"
  proof (cases "e = 3")
    case True
    have "?y mod 4 = 0"
      by (rule mod_eqI[of _ _ _ "100 * a + 25 * b + c + 1"]) (use True in auto)
    with True show ?thesis by simp
  next
    case False
    have "?y mod 4 = e + 1"
      by (rule mod_eqI[of _ _ _ "100 * a + 25 * b + c"]) (use False assms in auto)
    with False show ?thesis by simp
  qed
  have m100: "?y mod 100 = (if c = 24 \<and> e = 3 then 0 else 4 * c + e + 1)"
  proof (cases "c = 24 \<and> e = 3")
    case True
    have "?y mod 100 = 0"
      by (rule mod_eqI[of _ _ _ "4 * a + b + 1"]) (use True in auto)
    with True show ?thesis by simp
  next
    case False
    have "?y mod 100 = 4 * c + e + 1"
      by (rule mod_eqI[of _ _ _ "4 * a + b"]) (use False assms in auto)
    with False show ?thesis by simp
  qed
  have m400: "?y mod 400 = (if b = 3 \<and> c = 24 \<and> e = 3 then 0 else 100 * b + 4 * c + e + 1)"
  proof (cases "b = 3 \<and> c = 24 \<and> e = 3")
    case True
    have "?y mod 400 = 0"
      by (rule mod_eqI[of _ _ _ "a + 1"]) (use True in auto)
    with True show ?thesis by simp
  next
    case False
    have "?y mod 400 = 100 * b + 4 * c + e + 1"
      by (rule mod_eqI[of _ _ _ "a"]) (use False assms in auto)
    with False show ?thesis by simp
  qed
  show ?thesis
    unfolding is_leap_def m4 m100 m400 using assms by auto
qed

lemma month_day_all:
  "\<forall>n\<in>set [0..364]. \<forall>leap\<in>set [False, True].
     (case month_day leap n of (m, d) \<Rightarrow>
        1 \<le> m \<and> m \<le> 12 \<and> 1 \<le> d \<and> d \<le> 31
        \<and> DAYS_BEFORE_MONTH ! nat (m - 1) + (if m > 2 \<and> leap then 1 else 0) + d = n + 1)"
  by code_simp

lemma month_day_props:
  assumes "0 \<le> n" "n \<le> 364" "month_day leap n = (m, d)"
  shows "1 \<le> m \<and> m \<le> 12 \<and> 1 \<le> d \<and> d \<le> 31
     \<and> DAYS_BEFORE_MONTH ! nat (m - 1) + (if m > 2 \<and> leap then 1 else 0) + d = n + 1"
proof -
  from assms(1,2) have a: "n \<in> set [0..364]" by simp
  have b: "leap \<in> set [False, True]" by simp
  from month_day_all[THEN bspec, OF a, THEN bspec, OF b] assms(3) show ?thesis by simp
qed

lemma ord2ymd_correct:
  assumes "1 \<le> ordinal" "ordinal \<le> MAXORDINAL"
  shows "\<exists>y m d. ord2ymd ordinal = (y, m, d) \<and> 1 \<le> y \<and> y \<le> 9999 \<and> 1 \<le> m \<and> m \<le> 12
     \<and> 1 \<le> d \<and> d \<le> 31 \<and> ymd2ord y m d = ordinal"
proof -
  define n0 where "n0 = ordinal - 1"
  define n400 where "n400 = n0 div 146097"
  define na where "na = n0 mod 146097"
  define n100 where "n100 = na div 36524"
  define nb where "nb = na mod 36524"
  define n4 where "n4 = nb div 1461"
  define nc where "nc = nb mod 1461"
  define n1 where "n1 = nc div 365"
  define n where "n = nc mod 365"
  have n0: "0 \<le> n0" "n0 \<le> 3652058"
    using assms by (simp_all add: n0_def MAXORDINAL_def)
  have e0: "n0 = n400 * 146097 + na" and na: "0 \<le> na" "na < 146097"
    by (simp_all add: n400_def na_def)
  have ea: "na = n100 * 36524 + nb" and nb: "0 \<le> nb" "nb < 36524"
    by (simp_all add: n100_def nb_def)
  have eb: "nb = n4 * 1461 + nc" and nc: "0 \<le> nc" "nc < 1461"
    by (simp_all add: n4_def nc_def)
  have ec: "nc = n1 * 365 + n" and n: "0 \<le> n" "n < 365"
    by (simp_all add: n1_def n_def)
  have b400: "0 \<le> n400" "n400 \<le> 24"
  proof -
    show "0 \<le> n400" using n0 by (simp add: n400_def pos_imp_zdiv_nonneg_iff)
    show "n400 \<le> 24" using n0 e0 na by linarith
  qed
  have b100: "0 \<le> n100" "n100 \<le> 4"
  proof -
    show "0 \<le> n100" using na by (simp add: n100_def pos_imp_zdiv_nonneg_iff)
    show "n100 \<le> 4" using na ea nb by linarith
  qed
  have b4: "0 \<le> n4" "n4 \<le> 24"
  proof -
    show "0 \<le> n4" using nb by (simp add: n4_def pos_imp_zdiv_nonneg_iff)
    show "n4 \<le> 24" using nb eb nc by linarith
  qed
  have b1: "0 \<le> n1" "n1 \<le> 4"
  proof -
    show "0 \<le> n1" using nc by (simp add: n1_def pos_imp_zdiv_nonneg_iff)
    show "n1 \<le> 4" using nc ec n by linarith
  qed
  have o: "ord2ymd ordinal
      = (if n1 = 4 \<or> n100 = 4 then (n400 * 400 + 1 + n100 * 100 + n4 * 4 + n1 - 1, 12, 31)
         else case month_day (n1 = 3 \<and> (n4 \<noteq> 24 \<or> n100 = 3)) n of
                (month, day) \<Rightarrow> (n400 * 400 + 1 + n100 * 100 + n4 * 4 + n1, month, day))"
    by (simp add: ord2ymd_def Let_def n0_def n400_def na_def n100_def nb_def n4_def nc_def
        n1_def n_def)
  show ?thesis
  proof (cases "n100 = 4")
    case True
    with ea na nb have "nb = 0" by linarith
    with eb nc b4 have "n4 = 0" "nc = 0" by linarith+
    with ec n b1 have "n1 = 0" "n = 0" by linarith+
    have y: "ord2ymd ordinal = (400 * n400 + 100 * 3 + 4 * 24 + 3 + 1, 12, 31)"
      using o True \<open>n4 = 0\<close> \<open>n1 = 0\<close> by simp
    have d: "days_before_year (400 * n400 + 100 * 3 + 4 * 24 + 3 + 1)
        = 146097 * n400 + 36524 * 3 + 1461 * 24 + 365 * 3"
      by (rule days_before_year_decomp) simp_all
    have l: "is_leap (400 * n400 + 100 * 3 + 4 * 24 + 3 + 1)"
      using is_leap_decomp[of 3 24 3 n400] by simp
    have "n400 \<le> 23"
      using e0 True ea \<open>nb = 0\<close> n0 by linarith
    have "ymd2ord (400 * n400 + 100 * 3 + 4 * 24 + 3 + 1) 12 31 = ordinal"
      using d l e0 ea True \<open>nb = 0\<close>
      by (simp add: ymd2ord_def days_before_month_def DAYS_BEFORE_MONTH_def n0_def)
    with y b400 \<open>n400 \<le> 23\<close> show ?thesis by simp
  next
    case n100: False
    with b100 have b100': "n100 \<le> 3" by simp
    show ?thesis
    proof (cases "n1 = 4")
      case True
      with ec n nc have "n = 0" "nc = 1460" by linarith+
      with eb nb b4 have n4': "n4 \<le> 23" by linarith
      have y: "ord2ymd ordinal = (400 * n400 + 100 * n100 + 4 * n4 + 3 + 1, 12, 31)"
        using o True by (simp add: algebra_simps)
      have d: "days_before_year (400 * n400 + 100 * n100 + 4 * n4 + 3 + 1)
          = 146097 * n400 + 36524 * n100 + 1461 * n4 + 365 * 3"
        by (rule days_before_year_decomp) (use b100 b100' b4 in simp_all)
      have l: "is_leap (400 * n400 + 100 * n100 + 4 * n4 + 3 + 1)"
        using is_leap_decomp[of n100 n4 3 n400] b100 b100' b4 n4' by simp
      have yb: "400 * n400 + 100 * n100 + 4 * n4 + 3 + 1 \<le> 9999"
      proof (cases "n400 = 24")
        case False
        with b400 b100' n4' show ?thesis by linarith
      next
        case n24: True
        show ?thesis
        proof (cases "n100 = 3")
          case False
          with b100' n4' n24 show ?thesis by linarith
        next
          case n3: True
          from n24 n3 e0 ea eb n0 \<open>nc = 1460\<close> have "n4 \<le> 23" by linarith
          with n24 n3 e0 ea eb n0 \<open>nc = 1460\<close> show ?thesis by linarith
        qed
      qed
      have "ymd2ord (400 * n400 + 100 * n100 + 4 * n4 + 3 + 1) 12 31 = ordinal"
        using d l e0 ea eb \<open>nc = 1460\<close>
        by (simp add: ymd2ord_def days_before_month_def DAYS_BEFORE_MONTH_def n0_def)
      with y b400 b100 b4 yb show ?thesis by simp
    next
      case n1: False
      with b1 have b1': "n1 \<le> 3" by simp
      obtain m d where md: "month_day (n1 = 3 \<and> (n4 \<noteq> 24 \<or> n100 = 3)) n = (m, d)"
        by (cases "month_day (n1 = 3 \<and> (n4 \<noteq> 24 \<or> n100 = 3)) n")
      from n have "n \<le> 364" by simp
      note p = month_day_props[OF n(1) this md]
      let ?y = "400 * n400 + 100 * n100 + 4 * n4 + n1 + 1"
      have y: "ord2ymd ordinal = (?y, m, d)"
        using o n1 n100 md by (simp add: algebra_simps)
      have dd: "days_before_year ?y = 146097 * n400 + 36524 * n100 + 1461 * n4 + 365 * n1"
        by (rule days_before_year_decomp) (use b100 b100' b4 b1 b1' in simp_all)
      have l: "is_leap ?y \<longleftrightarrow> n1 = 3 \<and> (n4 \<noteq> 24 \<or> n100 = 3)"
        by (rule is_leap_decomp) (use b100 b100' b4 b1 b1' in simp_all)
      have yb: "?y \<le> 9999"
      proof (cases "n400 = 24")
        case False
        with b400 b100' b4 b1' show ?thesis by linarith
      next
        case n24: True
        show ?thesis
        proof (cases "n100 = 3")
          case False
          with b100' b4 b1' n24 show ?thesis by linarith
        next
          case n3: True
          show ?thesis
          proof (cases "n4 = 24")
            case False
            with b4 b1' n24 n3 show ?thesis by linarith
          next
            case True
            with n24 n3 e0 ea eb ec n0 n have "n1 \<le> 2" by linarith
            with True n24 n3 show ?thesis by linarith
          qed
        qed
      qed
      have "ymd2ord ?y m d = ordinal"
        using dd l p e0 ea eb ec
        by (simp add: ymd2ord_def days_before_month_def n0_def)
      with y p b400 b100 b4 b1 yb show ?thesis by simp
    qed
  qed
qed

section \<open>Decimal fields\<close>

lemma digit_props_all:
  "\<forall>d\<in>set [0..9]. is_digit_char (digit d) \<and> digit_val (digit d) = d"
  by code_simp

lemma digit_props:
  assumes "0 \<le> d" "d \<le> 9"
  shows "is_digit_char (digit d)" "digit_val (digit d) = d"
proof -
  from assms have "d \<in> set [0..9]" by simp
  from digit_props_all[THEN bspec, OF this] show "is_digit_char (digit d)" "digit_val (digit d) = d"
    by simp_all
qed

lemma digit_mod: "0 \<le> n \<Longrightarrow> is_digit_char (digit (n mod 10)) \<and> digit_val (digit (n mod 10)) = n mod 10"
  using digit_props[of "n mod 10"] by simp

declare str_nat.simps [simp del]

lemma digits_val_snoc: "digits_val (s @ [c]) = digits_val s * 10 + digit_val c"
  by (simp add: digits_val_def)

lemma str_nat_props:
  "0 \<le> n \<Longrightarrow> list_all is_digit_char (str_nat n) \<and> str_nat n \<noteq> [] \<and> digits_val (str_nat n) = n"
proof (induction n rule: str_nat.induct)
  case (1 n)
  show ?case
  proof (cases "n < 10")
    case True
    with 1(2) have "str_nat n = [digit n]" by (simp add: str_nat.simps[of n])
    moreover from True 1(2) have "is_digit_char (digit n)" "digit_val (digit n) = n"
      using digit_props[of n] by simp_all
    ultimately show ?thesis by (simp add: digits_val_def)
  next
    case False
    then have e: "str_nat n = str_nat (n div 10) @ [digit (n mod 10)]"
      by (simp add: str_nat.simps[of n])
    from 1(2) have "0 \<le> n div 10" by simp
    from 1(1)[OF False this] digit_mod[OF 1(2)] show ?thesis
      unfolding e by (simp add: digits_val_snoc)
  qed
qed

lemma str_nat_length:
  "0 \<le> n \<Longrightarrow> n < 10 ^ k \<Longrightarrow> 0 < k \<Longrightarrow> length (str_nat n) \<le> k"
proof (induction n arbitrary: k rule: str_nat.induct)
  case (1 n)
  show ?case
  proof (cases "n < 10")
    case True
    with 1 show ?thesis by (simp add: str_nat.simps[of n])
  next
    case False
    then have e: "str_nat n = str_nat (n div 10) @ [digit (n mod 10)]"
      by (simp add: str_nat.simps[of n])
    from False 1(3) 1(4) have k: "1 < k" by (cases "k = 1") auto
    then obtain j where j: "k = Suc j" "0 < j" by (cases k) auto
    from 1(3) j have "n div 10 < 10 ^ j" by simp
    moreover from 1(2) have "0 \<le> n div 10" by simp
    ultimately have "length (str_nat (n div 10)) \<le> j"
      using 1(1)[OF False _ _ j(2)] by simp
    with e j show ?thesis by simp
  qed
qed

lemma str_nat_length_lower:
  "10 ^ k \<le> n \<Longrightarrow> k < length (str_nat n)"
proof (induction n arbitrary: k rule: str_nat.induct)
  case (1 n)
  show ?case
  proof (cases k)
    case 0
    from "1.prems" have "0 \<le> n" by (simp add: 0)
    from str_nat_props[OF this] have "str_nat n \<noteq> []" by simp
    with 0 show ?thesis by simp
  next
    case (Suc j)
    with "1.prems" have t: "10 * 10 ^ j \<le> n" by simp
    have "(1::int) \<le> 10 ^ j" by simp
    with t have n: "\<not> n < 10" by linarith
    from t have "10 ^ j \<le> n div 10" by linarith
    from "1.IH"[OF n this] have "j < length (str_nat (n div 10))" .
    moreover have "str_nat n = str_nat (n div 10) @ [digit (n mod 10)]"
      using n by (subst str_nat.simps) simp
    ultimately show ?thesis using Suc by simp
  qed
qed

lemma digits_val_zeros: "digits_val (replicate j CHR ''0'' @ s) = digits_val s"
proof (induction j)
  case 0
  then show ?case by simp
next
  case (Suc j)
  have "digit_val CHR ''0'' = 0" by code_simp
  then have "foldl (\<lambda>a c. a * 10 + digit_val c) 0 (CHR ''0'' # xs) = foldl (\<lambda>a c. a * 10 + digit_val c) 0 xs" for xs
    by simp
  with Suc show ?case by (simp add: digits_val_def)
qed

lemma zpad_props:
  assumes "0 \<le> n" "n < 10 ^ k" "0 < k"
  shows "length (zpad k n) = k" "list_all is_digit_char (zpad k n)" "digits_val (zpad k n) = n"
proof -
  have z: "zpad k n = replicate (k - length (str_nat n)) CHR ''0'' @ str_nat n"
    using assms(1) by (simp add: zpad_def)
  from str_nat_length[OF assms] show "length (zpad k n) = k"
    unfolding z by simp
  have "is_digit_char CHR ''0''" by code_simp
  with str_nat_props[OF assms(1)] show "list_all is_digit_char (zpad k n)"
    unfolding z by (auto simp: list_all_iff)
  from str_nat_props[OF assms(1)] show "digits_val (zpad k n) = n"
    unfolding z by (simp add: digits_val_zeros)
qed


section \<open>The fields of a wall clock\<close>

lemma wall_ordinal_range:
  assumes "in_range w"
  shows "1 \<le> wall_ordinal w" "wall_ordinal w \<le> MAXORDINAL"
proof -
  from assms have w: "0 \<le> w" "w < 3652059 * 86400000000"
    by (simp_all add: in_range_def MAXORDINAL_def US_PER_DAY_def)
  have e: "w = (w div 86400000000) * 86400000000 + w mod 86400000000"
    by simp
  have m: "0 \<le> w mod 86400000000" "w mod 86400000000 < 86400000000"
    by simp_all
  from w(1) show "1 \<le> wall_ordinal w"
    by (simp add: wall_ordinal_def US_PER_DAY_def pos_imp_zdiv_nonneg_iff)
  from w(2) e m have "w div 86400000000 < 3652059"
    by linarith
  then show "wall_ordinal w \<le> MAXORDINAL"
    by (simp add: wall_ordinal_def US_PER_DAY_def MAXORDINAL_def)
qed

lemma wall_fields:
  fixes w :: int
  defines "t \<equiv> w mod 86400000000"
  shows "wall_ordinal w - 1 = w div 86400000000"
    and "0 \<le> wall_hour w" and "wall_hour w \<le> 23"
    and "0 \<le> wall_minute w" and "wall_minute w \<le> 59"
    and "0 \<le> wall_second w" and "wall_second w \<le> 59"
    and "0 \<le> wall_microsecond w" and "wall_microsecond w < 1000000"
    and "w = (wall_ordinal w - 1) * 86400000000
           + ((wall_hour w * 60 + wall_minute w) * 60 + wall_second w) * 1000000
           + wall_microsecond w"
proof -
  have t: "0 \<le> t" "t < 86400000000" by (simp_all add: t_def)
  have e1: "w = (w div 86400000000) * 86400000000 + t" by (simp add: t_def)
  define s where "s = t div 1000000"
  define u where "u = t mod 1000000"
  have e2: "t = s * 1000000 + u" and u: "0 \<le> u" "u < 1000000" by (simp_all add: s_def u_def)
  define m where "m = s div 60"
  define se where "se = s mod 60"
  have e3: "s = m * 60 + se" and se: "0 \<le> se" "se < 60" by (simp_all add: m_def se_def)
  define h where "h = m div 60"
  define mi where "mi = m mod 60"
  have e4: "m = h * 60 + mi" and mi: "0 \<le> mi" "mi < 60" by (simp_all add: h_def mi_def)
  have ms: "m = t div 60000000"
    using zdiv_zmult2_eq[of 60 t 1000000] by (simp add: m_def s_def)
  have hs: "h = t div 3600000000"
    using zdiv_zmult2_eq[of 60 t 60000000] by (simp add: h_def ms)
  have us: "u = w mod 1000000"
    unfolding u_def t_def by (simp add: mod_mod_cancel)
  have s0: "0 \<le> s" using t by (simp add: s_def pos_imp_zdiv_nonneg_iff)
  have m0: "0 \<le> m" using s0 by (simp add: m_def pos_imp_zdiv_nonneg_iff)
  have h0: "0 \<le> h" using m0 by (simp add: h_def pos_imp_zdiv_nonneg_iff)
  have h23: "h \<le> 23" using t e2 e3 e4 u se mi by linarith
  have H: "wall_hour w = h"
    by (simp add: wall_hour_def US_PER_DAY_def US_PER_HOUR_def hs t_def)
  have M: "wall_minute w = mi"
    by (simp add: wall_minute_def US_PER_DAY_def US_PER_SEC_def mi_def ms t_def)
  have S: "wall_second w = se"
    by (simp add: wall_second_def US_PER_DAY_def US_PER_SEC_def se_def s_def t_def)
  have U: "wall_microsecond w = u"
    by (simp add: wall_microsecond_def US_PER_SEC_def us)
  show O: "wall_ordinal w - 1 = w div 86400000000"
    by (simp add: wall_ordinal_def US_PER_DAY_def)
  show "0 \<le> wall_hour w" "wall_hour w \<le> 23" using h0 h23 H by simp_all
  show "0 \<le> wall_minute w" "wall_minute w \<le> 59" using mi M by simp_all
  show "0 \<le> wall_second w" "wall_second w \<le> 59" using se S by simp_all
  show "0 \<le> wall_microsecond w" "wall_microsecond w < 1000000" using u U by simp_all
  show "w = (wall_ordinal w - 1) * 86400000000
           + ((wall_hour w * 60 + wall_minute w) * 60 + wall_second w) * 1000000
           + wall_microsecond w"
  proof -
    have "t = ((h * 60 + mi) * 60 + se) * 1000000 + u"
      by (simp only: e2[symmetric] e3[symmetric] e4[symmetric])
    with e1 show ?thesis
      unfolding O H M S U by simp
  qed
qed

section \<open>The text of a date\<close>

lemma zpad2: "0 \<le> n \<Longrightarrow> n \<le> 99 \<Longrightarrow>
    length (zpad 2 n) = 2 \<and> list_all is_digit_char (zpad 2 n)"
  using zpad_props(1,2)[of n 2] by simp

lemma zpad4: "0 \<le> n \<Longrightarrow> n \<le> 9999 \<Longrightarrow>
    length (zpad 4 n) = 4 \<and> list_all is_digit_char (zpad 4 n)"
  using zpad_props(1,2)[of n 4] by simp







lemma str_int_year:
  assumes "1000 \<le> y" "y \<le> 9999"
  shows "str_int y = zpad 4 y"
proof -
  from str_nat_length[of y 4] assms have "length (str_nat y) \<le> 4" by simp
  moreover from str_nat_length_lower[of 3 y] assms have "3 < length (str_nat y)" by simp
  ultimately have "length (str_nat y) = 4" by simp
  with assms show ?thesis by (simp add: str_int_def zpad_def)
qed

lemma strftime_Ymd_form:
  assumes "1 \<le> ordinal" "ordinal \<le> MAXORDINAL" "ord2ymd ordinal = (y, m, d)" "1000 \<le> y"
  shows "strftime_Ymd ordinal = zpad 4 y @ zpad 2 m @ zpad 2 d"
    and "length (strftime_Ymd ordinal) = 8"
    and "list_all is_digit_char (strftime_Ymd ordinal)"
proof -
  from ord2ymd_correct[OF assms(1,2)] assms(3)
  have b: "1 \<le> y" "y \<le> 9999" "1 \<le> m" "m \<le> 12" "1 \<le> d" "d \<le> 31"
    by auto
  from str_int_year[OF assms(4) b(2)]
  show e: "strftime_Ymd ordinal = zpad 4 y @ zpad 2 m @ zpad 2 d"
    by (simp add: strftime_Ymd_def assms(3))
  from b zpad4[of y] zpad2[of m] zpad2[of d]
  show "length (strftime_Ymd ordinal) = 8" "list_all is_digit_char (strftime_Ymd ordinal)"
    unfolding e by simp_all
qed

lemma strftime_YmdTHMSZ_form:
  assumes "in_range w" "1000 \<le> utc_year w"
  shows "strftime_YmdTHMSZ w = compact_utc w" and "compact_utc_form (strftime_YmdTHMSZ w)"
proof -
  note r = wall_ordinal_range[OF assms(1)]
  obtain y m d where o: "ord2ymd (wall_ordinal w) = (y, m, d)"
    by (cases "ord2ymd (wall_ordinal w)")
  with assms(2) have y: "1000 \<le> y" by (simp add: utc_year_def)
  note d = strftime_Ymd_form[OF r o y]
  note f = wall_fields(2-7)[of w]
  define D where "D = strftime_Ymd (wall_ordinal w)"
  define H where "H = zpad 2 (wall_hour w) @ zpad 2 (wall_minute w) @ zpad 2 (wall_second w)"
  have s: "strftime_YmdTHMSZ w = D @ CHR ''T'' # H @ ''Z''"
    by (simp add: strftime_YmdTHMSZ_def strftime_YmdTHMS_def D_def H_def)
  from d(1) show "strftime_YmdTHMSZ w = compact_utc w"
    by (simp add: strftime_YmdTHMSZ_def strftime_YmdTHMS_def compact_utc_def o)
  have lD: "length D = 8" "list_all is_digit_char D" using d(2,3) by (simp_all add: D_def)
  have lH: "length H = 6" "list_all is_digit_char H"
    using f zpad2[of "wall_hour w"] zpad2[of "wall_minute w"] zpad2[of "wall_second w"]
    by (simp_all add: H_def)
  show "compact_utc_form (strftime_YmdTHMSZ w)"
    unfolding compact_utc_form_def s using lD lH
    by (simp add: nth_append)
qed
section \<open>The text of a datetime\<close>






section \<open>UNTIL values of a recurrence rule\<close>

lemma in_range_midnight: "1 \<le> d \<Longrightarrow> d \<le> MAXORDINAL \<Longrightarrow> in_range (midnight d)"
  by (simp add: in_range_def midnight_def MAXORDINAL_def US_PER_DAY_def)

lemma astimezone_UTC:
  assumes "astimezone a UTC = Inr r" "in_range (wall a)"
  shows "wall r = utc_us a \<and> in_range (wall r)"
proof (cases "tzi a = Pytz (zname UTC) (first_inf UTC)")
  case True
  with assms have "r = a" by (simp add: astimezone_def)
  moreover from True have "offset_us (tzi a) = 0" by (simp add: UTC_def utc_inf_def)
  ultimately show ?thesis using assms(2) by (simp add: utc_us_def)
next
  case False
  with assms(1) obtain u where u: "chk (wall a - offset_us (tzi a)) = Inr u" "fromutc UTC u = Inr r"
    by (auto simp: astimezone_def split: sum.splits)
  from u(1) have "u = utc_us a" "in_range u" by (simp_all add: chk_Inr utc_us_def)
  moreover from u(2) have "wall r = u"
    by (auto simp: fromutc_def Let_def UTC_def utc_inf_def chk_Inr split: sum.splits)
  ultimately show ?thesis by simp
qed

lemma fmt_until_value_dt:
  assumes "valid_pyval v" "fmt_until_value cfg (RDt v) = Inr s"
  shows "s = strftime_YmdTHMSZ (until_instant cfg v) \<and> in_range (until_instant cfg v)"
proof (cases v)
  case (PDate d)
  with assms show ?thesis by (simp add: in_range_midnight)
next
  case (PNaive w)
  with assms(2) obtain r where r: "astimezone \<lparr>wall = w, tzi = OtherTz (local_utcoff cfg w)\<rparr> UTC = Inr r"
    and s: "s = strftime_YmdTHMSZ (wall r)"
    by (auto split: sum.splits)
  from r have "wall r = w - local_utcoff cfg w * US_PER_SEC" "in_range (wall r)"
    by (auto simp: astimezone_def fromutc_def Let_def UTC_def utc_inf_def chk_Inr split: sum.splits)
  with s PNaive show ?thesis by simp
next
  case (PAware a)
  with assms(2) obtain r where r: "astimezone a UTC = Inr r" and s: "s = strftime_YmdTHMSZ (wall r)"
    by (auto split: sum.splits)
  from assms(1) PAware have "in_range (wall a)" by (simp add: valid_adt_def)
  from astimezone_UTC[OF r this] have "wall r = utc_us a" "in_range (utc_us a)"
    by auto
  with s PAware show ?thesis by simp
qed

lemma fmt_until_value_returns:
  assumes "valid_pyval v" "in_range (until_instant cfg v)"
  shows "fmt_until_value cfg (RDt v) = Inr (strftime_YmdTHMSZ (until_instant cfg v))"
proof (cases v)
  case (PDate d)
  then show ?thesis by simp
next
  case (PNaive w)
  with assms(2) show ?thesis
    by (simp add: astimezone_def fromutc_def Let_def UTC_def utc_inf_def chk_def)
next
  case (PAware a)
  show ?thesis
  proof (cases "tzi a = Pytz (zname UTC) (first_inf UTC)")
    case True
    then have t: "tzi a = Pytz ''UTC'' utc_inf" by (simp add: UTC_def)
    have o: "offset_us (tzi a) = 0" unfolding t by (simp add: utc_inf_def)
    have "astimezone a UTC = Inr a" by (simp add: astimezone_def True)
    moreover have "utc_us a = wall a" by (simp add: utc_us_def o)
    ultimately show ?thesis using PAware by simp
  next
    case False
    with PAware assms(2) show ?thesis
      by (simp add: astimezone_def fromutc_def Let_def UTC_def utc_inf_def chk_def utc_us_def)
  qed
qed

lemma zpad2_zero: "zpad 2 0 = ''00''"
  by code_simp

lemma strftime_midnight: "strftime_YmdTHMSZ (midnight d) = strftime_Ymd d @ ''T000000Z''"
proof -
  have "wall_ordinal (midnight d) = d" "wall_hour (midnight d) = 0" "wall_minute (midnight d) = 0"
    "wall_second (midnight d) = 0"
    by (simp_all add: wall_ordinal_def midnight_def wall_hour_def wall_minute_def wall_second_def
        US_PER_DAY_def US_PER_HOUR_def US_PER_SEC_def)
  then show ?thesis
    by (simp add: strftime_YmdTHMSZ_def strftime_YmdTHMS_def zpad2_zero)
qed

lemma rrule_values_until:
  "rrule_values cfg ''UNTIL'' vs = Inr out \<Longrightarrow>
     list_all2 (\<lambda>v s. fmt_until_value cfg v = Inr s) vs out"
proof (induction vs arbitrary: out)
  case Nil
  then show ?case by simp
next
  case (Cons v vs)
  from Cons.prems obtain s rest where s: "fmt_until_value cfg v = Inr s"
    and r: "rrule_values cfg ''UNTIL'' vs = Inr rest" and o: "out = s # rest"
    by (auto split: sum.splits)
  from Cons.IH[OF r] s o show ?case by simp
qed

lemma rrule_parts_form:
  "rrule_parts cfg rrule_dict ks = Inr parts \<Longrightarrow>
     list_all2 (\<lambda>k part. \<exists>out. rrule_values cfg (upper k) (rrule_get rrule_dict k) = Inr out
                    \<and> part = upper k @ ''='' @ join '','' out) ks parts"
proof (induction ks arbitrary: parts)
  case Nil
  then show ?case by simp
next
  case (Cons k ks)
  from Cons.prems obtain out rest where
    o: "rrule_values cfg (upper k) (rrule_get rrule_dict k) = Inr out"
    and r: "rrule_parts cfg rrule_dict ks = Inr rest"
    and p: "parts = (upper k @ ''='' @ join '','' out) # rest"
    by (auto split: sum.splits)
  from Cons.IH[OF r] o p show ?case by auto
qed

lemma sample_until:
  "valid_pyval (PDate (ymd2ord 2025 12 31))
   \<and> fmt_until_value sample_cfg (RDt (PDate (ymd2ord 2025 12 31))) = Inr ''20251231T000000Z''
   \<and> 1000 \<le> utc_year (until_instant sample_cfg (PDate (ymd2ord 2025 12 31)))
   \<and> valid_pyval (PAware (localize Europe_Paris (mk_wall 2025 12 31 23 59 59)))
   \<and> fmt_until_value sample_cfg
         (RDt (PAware (localize Europe_Paris (mk_wall 2025 12 31 23 59 59))))
       = Inr ''20251231T225959Z''
   \<and> 1000 \<le> utc_year (until_instant sample_cfg
                  (PAware (localize Europe_Paris (mk_wall 2025 12 31 23 59 59))))"
  by code_simp

lemma sample_rrule:
  "build_rrule_string sample_cfg
     [(''FREQ'', [RStr ''WEEKLY'']), (''UNTIL'', [RDt (PDate (ymd2ord 2025 12 31))])]
     = Inr ''FREQ=WEEKLY;UNTIL=20251231T000000Z''"
  by code_simp

text \<open>
  C7, as the code has it. An UNTIL value that is a date or a datetime is rendered by
  \<open>strftime\<close> from its instant in UTC, midnight UTC for a date, and the rendering does
  not fail when that instant is a datetime of the library. When the year of the instant
  in UTC is 1000 or later the text is the compact timestamp: four digits of the year, two
  of the month and of the day, \<open>T\<close>, two each of hour, minute and second, and \<open>Z\<close>. In
  the encoded rule, the part of a key that is UNTIL in upper case is \<open>UNTIL=\<close> followed
  by the rendered values, joined by commas. The weekly rule with UNTIL the date
  2025-12-31 encodes to \<open>FREQ=WEEKLY;UNTIL=20251231T000000Z\<close>.
\<close>

theorem until_rendered_utc_compact:
  "(\<forall>v. valid_pyval v \<and> in_range (until_instant cfg v) \<longrightarrow>
        fmt_until_value cfg (RDt v) = Inr (strftime_YmdTHMSZ (until_instant cfg v)))
   \<and> (\<forall>v s. valid_pyval v \<and> fmt_until_value cfg (RDt v) = Inr s
          \<and> 1000 \<le> utc_year (until_instant cfg v) \<longrightarrow>
        s = compact_utc (until_instant cfg v) \<and> compact_utc_form s)
   \<and> (\<forall>d. fmt_until_value cfg (RDt (PDate d)) = Inr (strftime_Ymd d @ ''T000000Z''))
   \<and> (\<forall>rrule_dict rule_text.
        list_all is_ascii (map fst rrule_dict)
        \<and> build_rrule_string cfg rrule_dict = Inr rule_text \<longrightarrow>
        (\<exists>parts. rule_text = join '';'' parts
           \<and> list_all2
               (\<lambda>k part. \<exists>out. part = upper k @ ''='' @ join '','' out
                  \<and> (upper k = ''UNTIL'' \<longrightarrow>
                        list_all2 (\<lambda>v s. fmt_until_value cfg v = Inr s)
                          (rrule_get rrule_dict k) out))
               (sort_key upper (map fst rrule_dict)) parts))
   \<and> build_rrule_string sample_cfg
        [(''FREQ'', [RStr ''WEEKLY'']), (''UNTIL'', [RDt (PDate (ymd2ord 2025 12 31))])]
       = Inr ''FREQ=WEEKLY;UNTIL=20251231T000000Z''"
proof -
  have 0: "fmt_until_value cfg (RDt v) = Inr (strftime_YmdTHMSZ (until_instant cfg v))"
    if "valid_pyval v \<and> in_range (until_instant cfg v)" for v
    using that fmt_until_value_returns[of v cfg] by simp
  have 1: "s = compact_utc (until_instant cfg v) \<and> compact_utc_form s"
    if h: "valid_pyval v \<and> fmt_until_value cfg (RDt v) = Inr s
          \<and> 1000 \<le> utc_year (until_instant cfg v)" for v s
  proof -
    from h fmt_until_value_dt[of v cfg s]
    have s: "s = strftime_YmdTHMSZ (until_instant cfg v)" and r: "in_range (until_instant cfg v)"
      by simp_all
    from h have y: "1000 \<le> utc_year (until_instant cfg v)" by simp
    from strftime_YmdTHMSZ_form[OF r y] s show ?thesis
      by simp
  qed
  have 2: "fmt_until_value cfg (RDt (PDate d)) = Inr (strftime_Ymd d @ ''T000000Z'')" for d
    by (simp add: strftime_midnight)
  have 3: "\<exists>parts. rule_text = join '';'' parts
           \<and> list_all2
               (\<lambda>k part. \<exists>out. part = upper k @ ''='' @ join '','' out
                  \<and> (upper k = ''UNTIL'' \<longrightarrow>
                        list_all2 (\<lambda>v s. fmt_until_value cfg v = Inr s)
                          (rrule_get rrule_dict k) out))
               (sort_key upper (map fst rrule_dict)) parts"
    if hb: "list_all is_ascii (map fst rrule_dict)
        \<and> build_rrule_string cfg rrule_dict = Inr rule_text" for rrule_dict rule_text
  proof -
    from hb have b: "build_rrule_string cfg rrule_dict = Inr rule_text" by simp
    from b obtain parts where
      p: "rrule_parts cfg rrule_dict (sort_key upper (map fst rrule_dict)) = Inr parts"
      and t: "rule_text = join '';'' parts"
      by (auto simp: build_rrule_string_def split: sum.splits)
    have "list_all2
               (\<lambda>k part. \<exists>out. part = upper k @ ''='' @ join '','' out
                  \<and> (upper k = ''UNTIL'' \<longrightarrow>
                        list_all2 (\<lambda>v s. fmt_until_value cfg v = Inr s)
                          (rrule_get rrule_dict k) out))
               (sort_key upper (map fst rrule_dict)) parts"
      using rrule_parts_form[OF p]
    proof (rule list_all2_mono)
      fix k part
      assume "\<exists>out. rrule_values cfg (upper k) (rrule_get rrule_dict k) = Inr out
                    \<and> part = upper k @ ''='' @ join '','' out"
      then obtain out where o: "rrule_values cfg (upper k) (rrule_get rrule_dict k) = Inr out"
        and q: "part = upper k @ ''='' @ join '','' out"
        by blast
      have "upper k = ''UNTIL'' \<longrightarrow>
          list_all2 (\<lambda>v s. fmt_until_value cfg v = Inr s) (rrule_get rrule_dict k) out"
        using o rrule_values_until[of cfg "rrule_get rrule_dict k" out] by auto
      with q show "\<exists>out. part = upper k @ ''='' @ join '','' out
                  \<and> (upper k = ''UNTIL'' \<longrightarrow>
                        list_all2 (\<lambda>v s. fmt_until_value cfg v = Inr s)
                          (rrule_get rrule_dict k) out)"
        by blast
    qed
    with t show ?thesis by blast
  qed
  have c0: "\<forall>v. valid_pyval v \<and> in_range (until_instant cfg v) \<longrightarrow>
        fmt_until_value cfg (RDt v) = Inr (strftime_YmdTHMSZ (until_instant cfg v))"
    by (intro allI impI) (erule 0)
  have c1: "\<forall>v s. valid_pyval v \<and> fmt_until_value cfg (RDt v) = Inr s
          \<and> 1000 \<le> utc_year (until_instant cfg v) \<longrightarrow>
        s = compact_utc (until_instant cfg v) \<and> compact_utc_form s"
    by (intro allI impI) (erule 1)
  have c2: "\<forall>d. fmt_until_value cfg (RDt (PDate d)) = Inr (strftime_Ymd d @ ''T000000Z'')"
    by (intro allI) (rule 2)
  have c3: "\<forall>rrule_dict rule_text.
        list_all is_ascii (map fst rrule_dict)
        \<and> build_rrule_string cfg rrule_dict = Inr rule_text \<longrightarrow>
        (\<exists>parts. rule_text = join '';'' parts
           \<and> list_all2
               (\<lambda>k part. \<exists>out. part = upper k @ ''='' @ join '','' out
                  \<and> (upper k = ''UNTIL'' \<longrightarrow>
                        list_all2 (\<lambda>v s. fmt_until_value cfg v = Inr s)
                          (rrule_get rrule_dict k) out))
               (sort_key upper (map fst rrule_dict)) parts)"
    by (intro allI impI) (erule 3)
  show ?thesis
    by (rule conjI[OF c0 conjI[OF c1 conjI[OF c2 conjI[OF c3 sample_rrule]]]])
qed

theorem until_rendered_utc_compact_witness:
  "valid_pyval (PDate (ymd2ord 2025 12 31))
   \<and> fmt_until_value sample_cfg (RDt (PDate (ymd2ord 2025 12 31))) = Inr ''20251231T000000Z''
   \<and> 1000 \<le> utc_year (until_instant sample_cfg (PDate (ymd2ord 2025 12 31)))
   \<and> compact_utc_form ''20251231T000000Z''
   \<and> valid_pyval (PAware (localize Europe_Paris (mk_wall 2025 12 31 23 59 59)))
   \<and> fmt_until_value sample_cfg
         (RDt (PAware (localize Europe_Paris (mk_wall 2025 12 31 23 59 59))))
       = Inr ''20251231T225959Z''
   \<and> 1000 \<le> utc_year (until_instant sample_cfg
                  (PAware (localize Europe_Paris (mk_wall 2025 12 31 23 59 59))))
   \<and> compact_utc_form ''20251231T225959Z''"
proof -
  let ?a = "PDate (ymd2ord 2025 12 31)"
  let ?b = "PAware (localize Europe_Paris (mk_wall 2025 12 31 23 59 59))"
  note t = until_rendered_utc_compact[of sample_cfg, THEN conjunct2, THEN conjunct1]
  note a1 = sample_until[THEN conjunct1]
  note a2 = sample_until[THEN conjunct2, THEN conjunct1]
  note a3 = sample_until[THEN conjunct2, THEN conjunct2, THEN conjunct1]
  note b1 = sample_until[THEN conjunct2, THEN conjunct2, THEN conjunct2, THEN conjunct1]
  note b2 = sample_until[THEN conjunct2, THEN conjunct2, THEN conjunct2, THEN conjunct2,
      THEN conjunct1]
  note b3 = sample_until[THEN conjunct2, THEN conjunct2, THEN conjunct2, THEN conjunct2,
      THEN conjunct2]
  have a: "valid_pyval ?a \<and> fmt_until_value sample_cfg (RDt ?a) = Inr ''20251231T000000Z''
      \<and> 1000 \<le> utc_year (until_instant sample_cfg ?a)"
    by (intro conjI a1 a2 a3)
  have b: "valid_pyval ?b \<and> fmt_until_value sample_cfg (RDt ?b) = Inr ''20251231T225959Z''
      \<and> 1000 \<le> utc_year (until_instant sample_cfg ?b)"
    by (intro conjI b1 b2 b3)
  note ta = t[THEN spec, THEN spec, THEN mp, OF a, THEN conjunct2]
  note tb = t[THEN spec, THEN spec, THEN mp, OF b, THEN conjunct2]
  show ?thesis
    by (intro conjI a1 a2 a3 ta b1 b2 b3 tb)
qed

text \<open>
  C7, as stated, fails: the date 0999-12-31 as UNTIL is rendered with a year of three
  digits, so the encoded rule carries an UNTIL text of fifteen characters, which is not of
  the form \<open>YYYYMMDDThhmmssZ\<close>.
\<close>

theorem until_three_digit_year_counterexample:
  "build_rrule_string sample_cfg
     [(''FREQ'', [RStr ''YEARLY'']), (''UNTIL'', [RDt (PDate (ymd2ord 999 12 31))])]
     = Inr ''FREQ=YEARLY;UNTIL=9991231T000000Z''
   \<and> fmt_until_value sample_cfg (RDt (PDate (ymd2ord 999 12 31))) = Inr ''9991231T000000Z''
   \<and> \<not> compact_utc_form ''9991231T000000Z''"
  by code_simp

section \<open>The identity of an override\<close>














section \<open>The serialization determines its fields\<close>


















end
